theory Spec2Isabelle
  imports Main "HOL-Library.Multiset"
begin

section \<open>The memory and the element type\<close>

text \<open>
  The source is \<^verbatim>\<open>advanced-vector/vector.h\<close>: a class \<^verbatim>\<open>RawMemory<T>\<close> owning one block of
  raw memory and a class \<^verbatim>\<open>Vector<T>\<close> built on it.

  A block of raw memory is a list of slots; a slot is either uninitialised or holds a live
  object of type \<^verbatim>\<open>T\<close>. The free store is a list of blocks indexed by address; a block that
  has been released reads \<open>None\<close>. \<^verbatim>\<open>operator new\<close> always hands out the next address, so a
  fresh block never aliases an older one. A pointer \<^verbatim>\<open>T*\<close> is a block handle (\<open>None\<close> is
  \<^verbatim>\<open>nullptr\<close>) with an element offset.

  \<^verbatim>\<open>size_t\<close> is modelled by \<open>nat\<close>; the byte size \<^verbatim>\<open>n * sizeof(T)\<close> of a request is taken
  not to wrap (see \<open>representable\<close> below). Every access to
  a slot that does not hold what the access needs is undefined behaviour, the outcome
  \<open>UB\<close>. The source is compiled as it stands, with its \<^verbatim>\<open>assert\<close>s in force: an assertion
  that fails stops the program, the outcome \<open>Abort\<close>, with no destructor run.
\<close>

type_synonym addr = nat

datatype 'a slot = is_Raw: Raw | is_Obj: Obj (obj: 'a)

type_synonym ptr = "addr option \<times> nat"

text \<open>The calls into the element type, as an instrumented element type would count them.\<close>

datatype 'a call =
    ValueInit
  | CopyCtor 'a
  | MoveCtor 'a
  | ArgsCtor 'a
  | CopyAssign 'a
  | MoveAssign 'a
  | Dtor 'a

datatype exn = bad_alloc | elem_exn

datatype 'r outcome = Ret 'r | Throw exn | UB | Abort

text \<open>
  The element type \<^verbatim>\<open>T\<close> is the only collaborator of the container. It is given by the two
  static traits the source queries, by the calls that throw, by the state in which a move
  leaves its source, by the value that value-initialisation produces, and by
  \<^verbatim>\<open>sizeof(T)\<close>. Copying and moving produce the value of the source; a call that throws
  changes no object; the destructor never throws.
\<close>

record 'a elem_type =
  nothrow_move_constructible :: bool
  copy_constructible :: bool
  throws :: "'a call \<Rightarrow> bool"
  moved_from :: "'a \<Rightarrow> 'a"
  default_value :: 'a
  size_of :: nat

text \<open>
  A move constructor that is \<^verbatim>\<open>noexcept\<close> does not throw, whatever \<open>throws\<close> says.
\<close>

definition may_throw :: "'a elem_type \<Rightarrow> 'a call \<Rightarrow> bool" where
  "may_throw T c =
     (case c of
        MoveCtor v \<Rightarrow> \<not> nothrow_move_constructible T \<and> throws T c
      | Dtor v \<Rightarrow> False
      | _ \<Rightarrow> throws T c)"

text \<open>
  The machine: the free store, the log of the calls made into the element type, and the
  oracle of \<^verbatim>\<open>operator new\<close>: \<open>new_fails m k n\<close> says that the request for \<open>n\<close> elements made
  when \<open>k\<close> blocks have been handed out so far ends in \<^verbatim>\<open>std::bad_alloc\<close>.
\<close>

record 'a machine =
  heap :: "'a slot list option list"
  log :: "'a call list"
  new_fails :: "nat \<Rightarrow> nat \<Rightarrow> bool"

definition block_at :: "'a machine \<Rightarrow> addr option \<Rightarrow> 'a slot list option" where
  "block_at m b =
     (case b of
        None \<Rightarrow> None
      | Some a \<Rightarrow> if a < length (heap m) then heap m ! a else None)"

definition slot_at :: "'a machine \<Rightarrow> ptr \<Rightarrow> 'a slot option" where
  "slot_at m p =
     (case block_at m (fst p) of
        None \<Rightarrow> None
      | Some blk \<Rightarrow> if snd p < length blk then Some (blk ! snd p) else None)"

definition store :: "ptr \<Rightarrow> 'a slot \<Rightarrow> 'a machine \<Rightarrow> 'a machine" where
  "store p s m =
     (case fst p of
        None \<Rightarrow> m
      | Some a \<Rightarrow>
          (case block_at m (Some a) of
             None \<Rightarrow> m
           | Some blk \<Rightarrow> m\<lparr>heap := (heap m)[a := Some (blk[snd p := s])]\<rparr>))"

definition log_call :: "'a call \<Rightarrow> 'a machine \<Rightarrow> 'a machine" where
  "log_call c m = m\<lparr>log := log m @ [c]\<rparr>"

definition ptr_add :: "ptr \<Rightarrow> nat \<Rightarrow> ptr" where
  "ptr_add p k = (fst p, snd p + k)"

text \<open>
  \<open>ptr_diff q p\<close> is \<^verbatim>\<open>q - p\<close> for a valid range \<^verbatim>\<open>[p, q)\<close>: both pointers into the same
  block and \<^verbatim>\<open>p\<close> not behind \<^verbatim>\<open>q\<close>. Anything else is no range.
\<close>

definition ptr_diff :: "ptr \<Rightarrow> ptr \<Rightarrow> nat option" where
  "ptr_diff q p =
     (if fst q = fst p \<and> snd p \<le> snd q then Some (snd q - snd p) else None)"

subsection \<open>Single element operations\<close>

text \<open>
  \<^verbatim>\<open>new (p) T(...)\<close>: the call \<open>c\<close> is logged; it throws, or it leaves a live object of
  value \<open>v\<close> in the slot.
\<close>

definition placement_new ::
  "'a elem_type \<Rightarrow> ptr \<Rightarrow> 'a call \<Rightarrow> 'a \<Rightarrow> 'a machine \<Rightarrow> unit outcome \<times> 'a machine" where
  "placement_new T p c v m =
     (case slot_at m p of
        None \<Rightarrow> (UB, m)
      | Some s \<Rightarrow>
          if may_throw T c then (Throw elem_exn, log_call c m)
          else (Ret (), store p (Obj v) (log_call c m)))"

text \<open>\<^verbatim>\<open>new (p) T(*src)\<close> with \<^verbatim>\<open>*src\<close> an lvalue or a const rvalue: the copy constructor.\<close>

definition construct_copy ::
  "'a elem_type \<Rightarrow> ptr \<Rightarrow> ptr \<Rightarrow> 'a machine \<Rightarrow> unit outcome \<times> 'a machine" where
  "construct_copy T p src m =
     (case slot_at m src of
        Some (Obj v) \<Rightarrow> placement_new T p (CopyCtor v) v m
      | _ \<Rightarrow> (UB, m))"

text \<open>
  \<^verbatim>\<open>new (p) T(std::move(*src))\<close> with \<^verbatim>\<open>*src\<close> not const: the move constructor, which
  leaves the source moved-from.
\<close>

definition construct_move ::
  "'a elem_type \<Rightarrow> ptr \<Rightarrow> ptr \<Rightarrow> 'a machine \<Rightarrow> unit outcome \<times> 'a machine" where
  "construct_move T p src m =
     (case slot_at m src of
        Some (Obj v) \<Rightarrow>
          (case placement_new T p (MoveCtor v) v m of
             (Ret u, m1) \<Rightarrow> (Ret (), store src (Obj (moved_from T v)) m1)
           | (Throw e, m1) \<Rightarrow> (Throw e, m1)
           | (UB, m1) \<Rightarrow> (UB, m1)
           | (Abort, m1) \<Rightarrow> (Abort, m1))
      | _ \<Rightarrow> (UB, m))"

text \<open>\<^verbatim>\<open>p->~T()\<close>.\<close>

definition destroy_at :: "ptr \<Rightarrow> 'a machine \<Rightarrow> unit outcome \<times> 'a machine" where
  "destroy_at p m =
     (case slot_at m p of
        Some (Obj v) \<Rightarrow> (Ret (), store p Raw (log_call (Dtor v) m))
      | _ \<Rightarrow> (UB, m))"

text \<open>
  \<^verbatim>\<open>*p = x\<close>, where the call \<open>c\<close> says which assignment operator runs and \<open>v\<close> is the value
  of \<^verbatim>\<open>x\<close>: the target must be a live object.
\<close>

definition assign_at ::
  "'a elem_type \<Rightarrow> ptr \<Rightarrow> 'a call \<Rightarrow> 'a \<Rightarrow> 'a machine \<Rightarrow> unit outcome \<times> 'a machine" where
  "assign_at T p c v m =
     (case slot_at m p of
        Some (Obj old) \<Rightarrow>
          if may_throw T c then (Throw elem_exn, log_call c m)
          else (Ret (), store p (Obj v) (log_call c m))
      | _ \<Rightarrow> (UB, m))"

text \<open>\<^verbatim>\<open>*p = *src\<close>.\<close>

definition assign_copy ::
  "'a elem_type \<Rightarrow> ptr \<Rightarrow> ptr \<Rightarrow> 'a machine \<Rightarrow> unit outcome \<times> 'a machine" where
  "assign_copy T p src m =
     (case slot_at m src of
        Some (Obj v) \<Rightarrow> assign_at T p (CopyAssign v) v m
      | _ \<Rightarrow> (UB, m))"

text \<open>\<^verbatim>\<open>*p = std::move(*src)\<close>.\<close>

definition assign_move ::
  "'a elem_type \<Rightarrow> ptr \<Rightarrow> ptr \<Rightarrow> 'a machine \<Rightarrow> unit outcome \<times> 'a machine" where
  "assign_move T p src m =
     (case slot_at m src of
        Some (Obj v) \<Rightarrow>
          (case assign_at T p (MoveAssign v) v m of
             (Ret u, m1) \<Rightarrow> (Ret (), store src (Obj (moved_from T v)) m1)
           | (Throw e, m1) \<Rightarrow> (Throw e, m1)
           | (UB, m1) \<Rightarrow> (UB, m1)
           | (Abort, m1) \<Rightarrow> (Abort, m1))
      | _ \<Rightarrow> (UB, m))"

text \<open>
  The argument pack of \<^verbatim>\<open>Emplace\<close>, \<^verbatim>\<open>EmplaceBack\<close>, \<^verbatim>\<open>PushBack\<close> and \<^verbatim>\<open>Insert\<close>, by the
  constructor that \<^verbatim>\<open>T(std::forward<Args>(args)...)\<close> selects: a \<^verbatim>\<open>const T&\<close> is copied, a
  \<^verbatim>\<open>T&&\<close> is moved from, anything else goes to another constructor, which builds the given
  value. The argument is an object of the caller outside the storage of the container; what
  a move leaves in it is not tracked.
\<close>

datatype 'a init = CopyOf 'a | MoveOf 'a | Args 'a

fun init_call :: "'a init \<Rightarrow> 'a call" where
  "init_call (CopyOf v) = CopyCtor v"
| "init_call (MoveOf v) = MoveCtor v"
| "init_call (Args v) = ArgsCtor v"

fun init_value :: "'a init \<Rightarrow> 'a" where
  "init_value (CopyOf v) = v"
| "init_value (MoveOf v) = v"
| "init_value (Args v) = v"

definition construct_from ::
  "'a elem_type \<Rightarrow> ptr \<Rightarrow> 'a init \<Rightarrow> 'a machine \<Rightarrow> unit outcome \<times> 'a machine" where
  "construct_from T p args m = placement_new T p (init_call args) (init_value args) m"


section \<open>The algorithms of the standard library\<close>

text \<open>
  The source calls \<^verbatim>\<open>std::uninitialized_copy_n\<close>, \<^verbatim>\<open>std::uninitialized_move_n\<close>,
  \<^verbatim>\<open>std::uninitialized_value_construct_n\<close>, \<^verbatim>\<open>std::destroy_n\<close>, \<^verbatim>\<open>std::copy\<close>, \<^verbatim>\<open>std::move\<close>
  and \<^verbatim>\<open>std::move_backward\<close>. They are modelled as the C++ standard describes them.

  The three \<^verbatim>\<open>uninitialized_\<close> algorithms construct \<open>n\<close> objects one after the other and
  differ only in how one object is constructed: \<open>construct_upto\<close> is their loop, which
  stops at the first construction that does not return and tells how many objects it has
  constructed. When a construction throws, the objects constructed so far are destroyed
  and the exception is thrown again. The standard leaves the order of these destructor
  calls open; the model takes the order of libstdc++, \<^verbatim>\<open>std::_Destroy(result, cur)\<close>, from
  the first object to the last; what is claimed below of a failed relocation does not depend
  on this order.
\<close>

definition rethrow :: "exn \<Rightarrow> unit outcome \<times> 's \<Rightarrow> unit outcome \<times> 's" where
  "rethrow e r =
     (case r of
        (Ret u, m) \<Rightarrow> (Throw e, m)
      | (Throw e', m) \<Rightarrow> (Throw e', m)
      | (UB, m) \<Rightarrow> (UB, m)
      | (Abort, m) \<Rightarrow> (Abort, m))"

fun destroy_n :: "ptr \<Rightarrow> nat \<Rightarrow> 'a machine \<Rightarrow> unit outcome \<times> 'a machine" where
  "destroy_n p 0 m = (Ret (), m)"
| "destroy_n p (Suc n) m =
     (case destroy_at p m of
        (Ret u, m1) \<Rightarrow> destroy_n (ptr_add p 1) n m1
      | (Throw e, m1) \<Rightarrow> (Throw e, m1)
      | (UB, m1) \<Rightarrow> (UB, m1)
      | (Abort, m1) \<Rightarrow> (Abort, m1))"

fun construct_upto ::
  "(ptr \<Rightarrow> ptr \<Rightarrow> 'a machine \<Rightarrow> unit outcome \<times> 'a machine) \<Rightarrow>
   ptr \<Rightarrow> nat \<Rightarrow> ptr \<Rightarrow> 'a machine \<Rightarrow> unit outcome \<times> nat \<times> 'a machine" where
  "construct_upto step src 0 dst m = (Ret (), 0, m)"
| "construct_upto step src (Suc n) dst m =
     (case step dst src m of
        (Ret u, m1) \<Rightarrow>
          (case construct_upto step (ptr_add src 1) n (ptr_add dst 1) m1 of
             (r, k, m2) \<Rightarrow> (r, Suc k, m2))
      | (Throw e, m1) \<Rightarrow> (Throw e, 0, m1)
      | (UB, m1) \<Rightarrow> (UB, 0, m1)
      | (Abort, m1) \<Rightarrow> (Abort, 0, m1))"

definition construct_n ::
  "(ptr \<Rightarrow> ptr \<Rightarrow> 'a machine \<Rightarrow> unit outcome \<times> 'a machine) \<Rightarrow>
   ptr \<Rightarrow> nat \<Rightarrow> ptr \<Rightarrow> 'a machine \<Rightarrow> unit outcome \<times> 'a machine" where
  "construct_n step src n dst m =
     (case construct_upto step src n dst m of
        (Ret u, k, m1) \<Rightarrow> (Ret (), m1)
      | (Throw e, k, m1) \<Rightarrow> rethrow e (destroy_n dst k m1)
      | (UB, k, m1) \<Rightarrow> (UB, m1)
      | (Abort, k, m1) \<Rightarrow> (Abort, m1))"

definition uninitialized_copy_n ::
  "'a elem_type \<Rightarrow> ptr \<Rightarrow> nat \<Rightarrow> ptr \<Rightarrow> 'a machine \<Rightarrow> unit outcome \<times> 'a machine" where
  "uninitialized_copy_n T src n dst m = construct_n (construct_copy T) src n dst m"

text \<open>
  \<^verbatim>\<open>std::uninitialized_move_n\<close> constructs from \<^verbatim>\<open>std::move(*src)\<close>. The flag says that the
  source iterator is a \<^verbatim>\<open>const T*\<close>: then \<^verbatim>\<open>std::move(*src)\<close> is a \<^verbatim>\<open>const T&&\<close>, which the
  move constructor \<^verbatim>\<open>T(T&&)\<close> does not accept, and overload resolution takes the copy
  constructor \<^verbatim>\<open>T(const T&)\<close>.
\<close>

definition uninitialized_move_n ::
  "'a elem_type \<Rightarrow> bool \<Rightarrow> ptr \<Rightarrow> nat \<Rightarrow> ptr \<Rightarrow> 'a machine \<Rightarrow> unit outcome \<times> 'a machine" where
  "uninitialized_move_n T src_const src n dst m =
     construct_n (if src_const then construct_copy T else construct_move T) src n dst m"

definition uninitialized_value_construct_n ::
  "'a elem_type \<Rightarrow> ptr \<Rightarrow> nat \<Rightarrow> 'a machine \<Rightarrow> unit outcome \<times> 'a machine" where
  "uninitialized_value_construct_n T dst n m =
     construct_n (\<lambda>p src. placement_new T p ValueInit (default_value T)) dst n dst m"

text \<open>
  \<^verbatim>\<open>std::copy\<close> and \<^verbatim>\<open>std::move\<close> assign front to back, \<^verbatim>\<open>std::move_backward\<close> back to
  front. A pair of iterators that is no valid range is undefined behaviour.
\<close>

fun assign_n ::
  "(ptr \<Rightarrow> ptr \<Rightarrow> 'a machine \<Rightarrow> unit outcome \<times> 'a machine) \<Rightarrow>
   ptr \<Rightarrow> nat \<Rightarrow> ptr \<Rightarrow> 'a machine \<Rightarrow> unit outcome \<times> 'a machine" where
  "assign_n step src 0 dst m = (Ret (), m)"
| "assign_n step src (Suc n) dst m =
     (case step dst src m of
        (Ret u, m1) \<Rightarrow> assign_n step (ptr_add src 1) n (ptr_add dst 1) m1
      | (Throw e, m1) \<Rightarrow> (Throw e, m1)
      | (UB, m1) \<Rightarrow> (UB, m1)
      | (Abort, m1) \<Rightarrow> (Abort, m1))"

definition std_copy ::
  "'a elem_type \<Rightarrow> ptr \<Rightarrow> ptr \<Rightarrow> ptr \<Rightarrow> 'a machine \<Rightarrow> unit outcome \<times> 'a machine" where
  "std_copy T p q dst m =
     (case ptr_diff q p of
        None \<Rightarrow> (UB, m)
      | Some n \<Rightarrow> assign_n (assign_copy T) p n dst m)"

definition std_move ::
  "'a elem_type \<Rightarrow> ptr \<Rightarrow> ptr \<Rightarrow> ptr \<Rightarrow> 'a machine \<Rightarrow> unit outcome \<times> 'a machine" where
  "std_move T p q dst m =
     (case ptr_diff q p of
        None \<Rightarrow> (UB, m)
      | Some n \<Rightarrow> assign_n (assign_move T) p n dst m)"

text \<open>
  \<open>assign_down T src n dst\<close> assigns \<^verbatim>\<open>dst[k] = std::move(src[k])\<close> for \<open>k\<close> from \<open>n - 1\<close>
  down to \<open>0\<close>.
\<close>

fun assign_down ::
  "'a elem_type \<Rightarrow> ptr \<Rightarrow> nat \<Rightarrow> ptr \<Rightarrow> 'a machine \<Rightarrow> unit outcome \<times> 'a machine" where
  "assign_down T src 0 dst m = (Ret (), m)"
| "assign_down T src (Suc n) dst m =
     (case assign_move T (ptr_add dst n) (ptr_add src n) m of
        (Ret u, m1) \<Rightarrow> assign_down T src n dst m1
      | (Throw e, m1) \<Rightarrow> (Throw e, m1)
      | (UB, m1) \<Rightarrow> (UB, m1)
      | (Abort, m1) \<Rightarrow> (Abort, m1))"

definition std_move_backward ::
  "'a elem_type \<Rightarrow> ptr \<Rightarrow> ptr \<Rightarrow> ptr \<Rightarrow> 'a machine \<Rightarrow> unit outcome \<times> 'a machine" where
  "std_move_backward T p q dst_last m =
     (case ptr_diff q p of
        None \<Rightarrow> (UB, m)
      | Some n \<Rightarrow>
          if snd dst_last < n then (UB, m)
          else assign_down T p n (fst dst_last, snd dst_last - n) m)"

section \<open>RawMemory\<close>

text \<open>
  The fields \<^verbatim>\<open>buffer_\<close> and \<^verbatim>\<open>capacity_\<close> (a name cannot end in an underscore here, so
  the fields carry the suffix \<open>_f\<close>).
\<close>

record RawMemory =
  buffer_f :: "addr option"
  capacity_f :: nat

text \<open>\<^verbatim>\<open>RawMemory() = default\<close>, with the default member initialisers.\<close>

definition RawMemory_default :: RawMemory where
  "RawMemory_default = \<lparr>buffer_f = None, capacity_f = 0\<rparr>"

text \<open>
  \<^verbatim>\<open>Allocate(n)\<close> asks \<^verbatim>\<open>operator new\<close> for \<^verbatim>\<open>n * sizeof(T)\<close> bytes, a product computed in
  \<^verbatim>\<open>size_t\<close>. A count \<open>n\<close> is representable when this product does not exceed \<^verbatim>\<open>SIZE_MAX\<close>
  (\<open>2 ^ 64 - 1\<close> on the 64-bit platforms): then \<^verbatim>\<open>operator new\<close> throws \<^verbatim>\<open>std::bad_alloc\<close> or
  yields a block with room for exactly \<open>n\<close> objects, and this is what \<open>Allocate\<close> describes.
  For a count that is not representable the product wraps, \<^verbatim>\<open>operator new\<close> is asked for
  fewer bytes, and the block is shorter than the capacity that \<^verbatim>\<open>RawMemory\<close> records:
  \<open>Allocate\<close> does not describe these calls. A count taken from the size of an existing
  vector (growth, copying) stays far below this bound, since no block fills half of the
  address space; a count that the caller chooses (\<^verbatim>\<open>Reserve\<close>, \<^verbatim>\<open>Resize\<close>, sized
  construction) need not, and what is claimed of these operations is claimed for
  representable counts.
\<close>

definition SIZE_MAX :: nat where
  "SIZE_MAX = 2 ^ 64 - 1"

definition representable :: "'a elem_type \<Rightarrow> nat \<Rightarrow> bool" where
  "representable T n \<longleftrightarrow> n * size_of T \<le> SIZE_MAX"

definition Allocate :: "nat \<Rightarrow> 'a machine \<Rightarrow> addr option outcome \<times> 'a machine" where
  "Allocate n m =
     (if n \<noteq> 0
      then (if new_fails m (length (heap m)) n then (Throw bad_alloc, m)
            else (Ret (Some (length (heap m))), m\<lparr>heap := heap m @ [Some (replicate n Raw)]\<rparr>))
      else (Ret None, m))"

text \<open>
  \<^verbatim>\<open>operator delete(buf)\<close> does nothing for \<^verbatim>\<open>nullptr\<close> and releases the block otherwise,
  with whatever it holds: no destructor runs.
\<close>

definition Deallocate :: "addr option \<Rightarrow> 'a machine \<Rightarrow> 'a machine" where
  "Deallocate buf m =
     (case buf of
        None \<Rightarrow> m
      | Some a \<Rightarrow> m\<lparr>heap := (heap m)[a := None]\<rparr>)"

definition RawMemory_ctor :: "nat \<Rightarrow> 'a machine \<Rightarrow> RawMemory outcome \<times> 'a machine" where
  "RawMemory_ctor capacity m =
     (case Allocate capacity m of
        (Ret buf, m1) \<Rightarrow> (Ret \<lparr>buffer_f = buf, capacity_f = capacity\<rparr>, m1)
      | (Throw e, m1) \<Rightarrow> (Throw e, m1)
      | (UB, m1) \<Rightarrow> (UB, m1)
      | (Abort, m1) \<Rightarrow> (Abort, m1))"

text \<open>\<^verbatim>\<open>Swap\<close> returns the new states of \<^verbatim>\<open>*this\<close> and of \<^verbatim>\<open>other\<close>.\<close>

definition RawMemory_Swap :: "RawMemory \<Rightarrow> RawMemory \<Rightarrow> RawMemory \<times> RawMemory" where
  "RawMemory_Swap this other =
     (\<lparr>buffer_f = buffer_f other, capacity_f = capacity_f other\<rparr>,
      \<lparr>buffer_f = buffer_f this, capacity_f = capacity_f this\<rparr>)"

text \<open>\<^verbatim>\<open>RawMemory(RawMemory&& other)\<close>: the new object starts from the default member
  initialisers and swaps with \<^verbatim>\<open>other\<close>.\<close>

definition RawMemory_move_ctor :: "RawMemory \<Rightarrow> RawMemory \<times> RawMemory" where
  "RawMemory_move_ctor other = RawMemory_Swap RawMemory_default other"

text \<open>
  \<^verbatim>\<open>RawMemory& operator=(RawMemory&& rhs) noexcept { Swap(rhs); }\<close>: the body swaps and then
  reaches the closing brace. The function returns a reference and has no \<^verbatim>\<open>return\<close>
  statement; flowing off the end of such a function is undefined behaviour, on every call.
  The model gives this outcome and the two objects as the swap left them.
\<close>

definition RawMemory_move_assign ::
  "RawMemory \<Rightarrow> RawMemory \<Rightarrow> unit outcome \<times> RawMemory \<times> RawMemory" where
  "RawMemory_move_assign this rhs =
     (case RawMemory_Swap this rhs of (this1, rhs1) \<Rightarrow> (UB, this1, rhs1))"

definition RawMemory_dtor :: "RawMemory \<Rightarrow> 'a machine \<Rightarrow> 'a machine" where
  "RawMemory_dtor this m = Deallocate (buffer_f this) m"

text \<open>
  \<^verbatim>\<open>operator+\<close> asserts \<^verbatim>\<open>offset <= capacity_\<close> and \<^verbatim>\<open>operator[]\<close> asserts
  \<^verbatim>\<open>index < capacity_\<close>; \<open>None\<close> is the failed assertion. The source takes the address of
  \<^verbatim>\<open>data_[index]\<close> or assigns to it; the model gives the address \<^verbatim>\<open>buffer_ + index\<close>.
\<close>

definition RawMemory_plus :: "RawMemory \<Rightarrow> nat \<Rightarrow> ptr option" where
  "RawMemory_plus this offset =
     (if offset \<le> capacity_f this then Some (buffer_f this, offset) else None)"

definition RawMemory_index :: "RawMemory \<Rightarrow> nat \<Rightarrow> ptr option" where
  "RawMemory_index this index =
     (if index < capacity_f this then Some (buffer_f this, index) else None)"

text \<open>\<^verbatim>\<open>GetAddress\<close> and \<^verbatim>\<open>Capacity\<close>.\<close>

definition GetAddress :: "RawMemory \<Rightarrow> ptr" where
  "GetAddress this = (buffer_f this, 0)"

definition RawMemory_Capacity :: "RawMemory \<Rightarrow> nat" where
  "RawMemory_Capacity this = capacity_f this"


section \<open>Vector\<close>

text \<open>The fields \<^verbatim>\<open>data_\<close> and \<^verbatim>\<open>size_\<close>.\<close>

record Vector =
  data_f :: RawMemory
  size_f :: nat

text \<open>
  A member function takes the object \<^verbatim>\<open>*this\<close> and the machine, and gives its outcome,
  the object afterwards and the machine afterwards. A constructor gives the new object.
\<close>

definition Vector_default :: Vector where
  "Vector_default = \<lparr>data_f = RawMemory_default, size_f = 0\<rparr>"

definition Size :: "Vector \<Rightarrow> nat" where
  "Size this = size_f this"

definition Capacity :: "Vector \<Rightarrow> nat" where
  "Capacity this = RawMemory_Capacity (data_f this)"

definition Vector_begin :: "Vector \<Rightarrow> ptr" where
  "Vector_begin this = GetAddress (data_f this)"

definition Vector_end :: "Vector \<Rightarrow> ptr" where
  "Vector_end this = ptr_add (GetAddress (data_f this)) (size_f this)"

text \<open>
  The block \<^verbatim>\<open>if constexpr (std::is_nothrow_move_constructible_v<T> ||
  !std::is_copy_constructible_v<T>) uninitialized_move_n(...) else uninitialized_copy_n(...)\<close>
  of the copy constructor, \<^verbatim>\<open>Reserve\<close>, \<^verbatim>\<open>PushBack\<close>, \<^verbatim>\<open>EmplaceBack\<close> and \<^verbatim>\<open>Emplace\<close>. The flag
  says whether the source pointer is a \<^verbatim>\<open>const T*\<close>.
\<close>

definition relocate_n ::
  "'a elem_type \<Rightarrow> bool \<Rightarrow> ptr \<Rightarrow> nat \<Rightarrow> ptr \<Rightarrow> 'a machine \<Rightarrow> unit outcome \<times> 'a machine" where
  "relocate_n T src_const src n dst m =
     (if nothrow_move_constructible T \<or> \<not> copy_constructible T
      then uninitialized_move_n T src_const src n dst m
      else uninitialized_copy_n T src n dst m)"

text \<open>\<^verbatim>\<open>explicit Vector(size_t size)\<close>; when a construction throws, the member \<^verbatim>\<open>data_\<close> is
  destroyed.\<close>

definition Vector_sized :: "'a elem_type \<Rightarrow> nat \<Rightarrow> 'a machine \<Rightarrow> Vector outcome \<times> 'a machine" where
  "Vector_sized T n m =
     (case RawMemory_ctor n m of
        (Ret d, m1) \<Rightarrow>
          (case uninitialized_value_construct_n T (GetAddress d) n m1 of
             (Ret u, m2) \<Rightarrow> (Ret \<lparr>data_f = d, size_f = n\<rparr>, m2)
           | (Throw e, m2) \<Rightarrow> (Throw e, RawMemory_dtor d m2)
           | (UB, m2) \<Rightarrow> (UB, m2)
           | (Abort, m2) \<Rightarrow> (Abort, m2))
      | (Throw e, m1) \<Rightarrow> (Throw e, m1)
      | (UB, m1) \<Rightarrow> (UB, m1)
      | (Abort, m1) \<Rightarrow> (Abort, m1))"

text \<open>
  \<^verbatim>\<open>Vector(const Vector& other)\<close>: \<^verbatim>\<open>other\<close> is const, so \<^verbatim>\<open>other.data_.GetAddress()\<close> is the
  const overload and the source pointer is a \<^verbatim>\<open>const T*\<close>.
\<close>

definition Vector_copy :: "'a elem_type \<Rightarrow> Vector \<Rightarrow> 'a machine \<Rightarrow> Vector outcome \<times> 'a machine" where
  "Vector_copy T other m =
     (case RawMemory_ctor (size_f other) m of
        (Ret d, m1) \<Rightarrow>
          (case relocate_n T True (GetAddress (data_f other)) (size_f other) (GetAddress d) m1 of
             (Ret u, m2) \<Rightarrow> (Ret \<lparr>data_f = d, size_f = size_f other\<rparr>, m2)
           | (Throw e, m2) \<Rightarrow> (Throw e, RawMemory_dtor d m2)
           | (UB, m2) \<Rightarrow> (UB, m2)
           | (Abort, m2) \<Rightarrow> (Abort, m2))
      | (Throw e, m1) \<Rightarrow> (Throw e, m1)
      | (UB, m1) \<Rightarrow> (UB, m1)
      | (Abort, m1) \<Rightarrow> (Abort, m1))"

text \<open>\<^verbatim>\<open>Vector(Vector&& other)\<close> gives the new object and \<^verbatim>\<open>other\<close> afterwards.\<close>

definition Vector_move :: "Vector \<Rightarrow> Vector \<times> Vector" where
  "Vector_move other =
     (case RawMemory_move_ctor (data_f other) of
        (d, od) \<Rightarrow> (\<lparr>data_f = d, size_f = size_f other\<rparr>, \<lparr>data_f = od, size_f = 0\<rparr>))"

definition Vector_dtor :: "Vector \<Rightarrow> 'a machine \<Rightarrow> unit outcome \<times> 'a machine" where
  "Vector_dtor this m =
     (case destroy_n (GetAddress (data_f this)) (size_f this) m of
        (Ret u, m1) \<Rightarrow> (Ret (), RawMemory_dtor (data_f this) m1)
      | (Throw e, m1) \<Rightarrow> (Throw e, m1)
      | (UB, m1) \<Rightarrow> (UB, m1)
      | (Abort, m1) \<Rightarrow> (Abort, m1))"

definition Vector_Swap :: "Vector \<Rightarrow> Vector \<Rightarrow> Vector \<times> Vector" where
  "Vector_Swap this other =
     (case RawMemory_Swap (data_f this) (data_f other) of
        (d, od) \<Rightarrow> (\<lparr>data_f = d, size_f = size_f other\<rparr>, \<lparr>data_f = od, size_f = size_f this\<rparr>))"

definition Vector_move_assign :: "Vector \<Rightarrow> Vector \<Rightarrow> Vector \<times> Vector" where
  "Vector_move_assign this rhs = Vector_Swap this rhs"

text \<open>
  The end of every growth path: \<^verbatim>\<open>std::destroy_n(data_.GetAddress(), size_);
  data_.Swap(new_data);\<close> and, at the end of the scope, the destructor of \<^verbatim>\<open>new_data\<close>, which
  by then holds the old block.
\<close>

definition replace_storage ::
  "Vector \<Rightarrow> RawMemory \<Rightarrow> 'a machine \<Rightarrow> unit outcome \<times> Vector \<times> 'a machine" where
  "replace_storage this new_data m =
     (case destroy_n (GetAddress (data_f this)) (size_f this) m of
        (Ret u, m1) \<Rightarrow>
          (case RawMemory_Swap (data_f this) new_data of
             (d, old) \<Rightarrow> (Ret (), this\<lparr>data_f := d\<rparr>, RawMemory_dtor old m1))
      | (Throw e, m1) \<Rightarrow> (Throw e, this, RawMemory_dtor new_data m1)
      | (UB, m1) \<Rightarrow> (UB, this, m1)
      | (Abort, m1) \<Rightarrow> (Abort, this, m1))"

definition Reserve ::
  "'a elem_type \<Rightarrow> nat \<Rightarrow> Vector \<Rightarrow> 'a machine \<Rightarrow> unit outcome \<times> Vector \<times> 'a machine" where
  "Reserve T new_capacity this m =
     (if new_capacity \<le> RawMemory_Capacity (data_f this) then (Ret (), this, m)
      else
        (case RawMemory_ctor new_capacity m of
           (Ret new_data, m1) \<Rightarrow>
             (case relocate_n T False (GetAddress (data_f this)) (size_f this)
                     (GetAddress new_data) m1 of
                (Ret u, m2) \<Rightarrow> replace_storage this new_data m2
              | (Throw e, m2) \<Rightarrow> (Throw e, this, RawMemory_dtor new_data m2)
              | (UB, m2) \<Rightarrow> (UB, this, m2)
              | (Abort, m2) \<Rightarrow> (Abort, this, m2))
         | (Throw e, m1) \<Rightarrow> (Throw e, this, m1)
         | (UB, m1) \<Rightarrow> (UB, this, m1)
         | (Abort, m1) \<Rightarrow> (Abort, this, m1)))"

definition Resize ::
  "'a elem_type \<Rightarrow> nat \<Rightarrow> Vector \<Rightarrow> 'a machine \<Rightarrow> unit outcome \<times> Vector \<times> 'a machine" where
  "Resize T new_size this m =
     (if new_size > size_f this then
        (case Reserve T new_size this m of
           (Ret u, v, m1) \<Rightarrow>
             (case uninitialized_value_construct_n T
                     (ptr_add (GetAddress (data_f v)) (size_f v)) (new_size - size_f v) m1 of
                (Ret u, m2) \<Rightarrow> (Ret (), v\<lparr>size_f := new_size\<rparr>, m2)
              | (Throw e, m2) \<Rightarrow> (Throw e, v, m2)
              | (UB, m2) \<Rightarrow> (UB, v, m2)
              | (Abort, m2) \<Rightarrow> (Abort, v, m2))
         | (Throw e, v, m1) \<Rightarrow> (Throw e, v, m1)
         | (UB, v, m1) \<Rightarrow> (UB, v, m1)
         | (Abort, v, m1) \<Rightarrow> (Abort, v, m1))
      else if new_size < size_f this then
        (case destroy_n (ptr_add (GetAddress (data_f this)) new_size)
                (size_f this - new_size) m of
           (Ret u, m1) \<Rightarrow> (Ret (), this\<lparr>size_f := new_size\<rparr>, m1)
         | (Throw e, m1) \<Rightarrow> (Throw e, this, m1)
         | (UB, m1) \<Rightarrow> (UB, this, m1)
         | (Abort, m1) \<Rightarrow> (Abort, this, m1))
      else (Ret (), this, m))"

text \<open>
  \<^verbatim>\<open>PushBack(const T& value)\<close> and \<^verbatim>\<open>PushBack(T&& value)\<close> have the same body, with \<^verbatim>\<open>T(value)\<close>
  and \<^verbatim>\<open>T(std::move(value))\<close> for the new element; \<open>value_arg\<close> says which.
\<close>

definition PushBack ::
  "'a elem_type \<Rightarrow> 'a init \<Rightarrow> Vector \<Rightarrow> 'a machine \<Rightarrow> unit outcome \<times> Vector \<times> 'a machine" where
  "PushBack T value_arg this m =
     (if size_f this = Capacity this then
        (case RawMemory_ctor (if size_f this = 0 then 1 else size_f this * 2) m of
           (Ret new_data, m1) \<Rightarrow>
             (case construct_from T (ptr_add (GetAddress new_data) (size_f this)) value_arg m1 of
                (Ret u, m2) \<Rightarrow>
                  (case relocate_n T False (GetAddress (data_f this)) (size_f this)
                          (GetAddress new_data) m2 of
                     (Ret u, m3) \<Rightarrow>
                       (case replace_storage this new_data m3 of
                          (Ret u, v, m4) \<Rightarrow>
                            (Ret (), v\<lparr>size_f := size_f v + 1\<rparr>, m4)
                        | (Throw e, v, m4) \<Rightarrow> (Throw e, v, m4)
                        | (UB, v, m4) \<Rightarrow> (UB, v, m4)
                        | (Abort, v, m4) \<Rightarrow> (Abort, v, m4))
                   | (Throw e, m3) \<Rightarrow> (Throw e, this, RawMemory_dtor new_data m3)
                   | (UB, m3) \<Rightarrow> (UB, this, m3)
                   | (Abort, m3) \<Rightarrow> (Abort, this, m3))
              | (Throw e, m2) \<Rightarrow> (Throw e, this, RawMemory_dtor new_data m2)
              | (UB, m2) \<Rightarrow> (UB, this, m2)
              | (Abort, m2) \<Rightarrow> (Abort, this, m2))
         | (Throw e, m1) \<Rightarrow> (Throw e, this, m1)
         | (UB, m1) \<Rightarrow> (UB, this, m1)
         | (Abort, m1) \<Rightarrow> (Abort, this, m1))
      else
        (case construct_from T (ptr_add (GetAddress (data_f this)) (size_f this)) value_arg m of
           (Ret u, m1) \<Rightarrow>
             (Ret (), this\<lparr>size_f := size_f this + 1\<rparr>, m1)
         | (Throw e, m1) \<Rightarrow> (Throw e, this, m1)
         | (UB, m1) \<Rightarrow> (UB, this, m1)
         | (Abort, m1) \<Rightarrow> (Abort, this, m1)))"

text \<open>
  \<^verbatim>\<open>EmplaceBack\<close> repeats the body of \<^verbatim>\<open>PushBack\<close> line by line, with
  \<^verbatim>\<open>T(std::forward<Args>(args)...)\<close> for the new element, and then returns
  \<^verbatim>\<open>data_[size_ - 1]\<close>, a reference to the new element, here its address, through
  \<^verbatim>\<open>RawMemory::operator[]\<close> and its assertion.
\<close>

definition EmplaceBack ::
  "'a elem_type \<Rightarrow> 'a init \<Rightarrow> Vector \<Rightarrow> 'a machine \<Rightarrow> ptr outcome \<times> Vector \<times> 'a machine" where
  "EmplaceBack T args this m =
     (case PushBack T args this m of
        (Ret u, v, m1) \<Rightarrow>
          (case RawMemory_index (data_f v) (size_f v - 1) of
             None \<Rightarrow> (Abort, v, m1)
           | Some p \<Rightarrow> (Ret p, v, m1))
      | (Throw e, v, m1) \<Rightarrow> (Throw e, v, m1)
      | (UB, v, m1) \<Rightarrow> (UB, v, m1)
      | (Abort, v, m1) \<Rightarrow> (Abort, v, m1))"

definition PushBack_copy ::
  "'a elem_type \<Rightarrow> 'a \<Rightarrow> Vector \<Rightarrow> 'a machine \<Rightarrow> unit outcome \<times> Vector \<times> 'a machine" where
  "PushBack_copy T x this m = PushBack T (CopyOf x) this m"

definition PushBack_move ::
  "'a elem_type \<Rightarrow> 'a \<Rightarrow> Vector \<Rightarrow> 'a machine \<Rightarrow> unit outcome \<times> Vector \<times> 'a machine" where
  "PushBack_move T x this m = PushBack T (MoveOf x) this m"

text \<open>\<^verbatim>\<open>PopBack\<close>: with \<^verbatim>\<open>size_ == 0\<close> the address \<^verbatim>\<open>data_.GetAddress() + size_ - 1\<close> is
  before the block.\<close>

definition PopBack :: "Vector \<Rightarrow> 'a machine \<Rightarrow> unit outcome \<times> Vector \<times> 'a machine" where
  "PopBack this m =
     (if size_f this = 0 then (UB, this, m)
      else
        (case destroy_n (ptr_add (GetAddress (data_f this)) (size_f this - 1)) 1 m of
           (Ret u, m1) \<Rightarrow> (Ret (), this\<lparr>size_f := size_f this - 1\<rparr>, m1)
         | (Throw e, m1) \<Rightarrow> (Throw e, this, m1)
         | (UB, m1) \<Rightarrow> (UB, this, m1)
         | (Abort, m1) \<Rightarrow> (Abort, this, m1)))"


text \<open>
  A local object \<^verbatim>\<open>T buffer(std::forward<Args>(args)...)\<close> lives outside the free store:
  its construction is logged and may throw, and its destructor runs when the scope is
  left, by then on the value that the object holds.
\<close>

definition construct_local ::
  "'a elem_type \<Rightarrow> 'a init \<Rightarrow> 'a machine \<Rightarrow> 'a outcome \<times> 'a machine" where
  "construct_local T args m =
     (if may_throw T (init_call args) then (Throw elem_exn, log_call (init_call args) m)
      else (Ret (init_value args), log_call (init_call args) m))"

definition destroy_local :: "'a \<Rightarrow> 'a machine \<Rightarrow> 'a machine" where
  "destroy_local v m = log_call (Dtor v) m"

text \<open>
  \<^verbatim>\<open>Emplace(pos, args...)\<close>. With \<^verbatim>\<open>size_ == 0\<close> the source calls
  \<^verbatim>\<open>EmplaceBack(std::move(args)...)\<close>; for a \<^verbatim>\<open>const T&\<close> and for a \<^verbatim>\<open>T&&\<close> argument
  \<^verbatim>\<open>std::move\<close> selects the constructor that \<^verbatim>\<open>std::forward\<close> selects. \<^verbatim>\<open>iter_distance\<close> is
  \<^verbatim>\<open>std::distance(cbegin(), pos)\<close>; \<^verbatim>\<open>size_ - iter_distance\<close> is an unsigned difference,
  which for a position behind \<^verbatim>\<open>end()\<close> is no element count. The path without allocation
  goes three times through \<^verbatim>\<open>data_[iter_distance]\<close> and its assertion
  \<^verbatim>\<open>iter_distance < capacity_\<close>, with the same index and the same capacity: the first one
  decides.
\<close>

definition Emplace ::
  "'a elem_type \<Rightarrow> ptr \<Rightarrow> 'a init \<Rightarrow> Vector \<Rightarrow> 'a machine \<Rightarrow> ptr outcome \<times> Vector \<times> 'a machine" where
  "Emplace T pos args this m =
     (if size_f this = 0 then
        (case EmplaceBack T args this m of
           (Ret r, v, m1) \<Rightarrow> (Ret (fst (Vector_end v), snd (Vector_end v) - 1), v, m1)
         | (Throw e, v, m1) \<Rightarrow> (Throw e, v, m1)
         | (UB, v, m1) \<Rightarrow> (UB, v, m1)
         | (Abort, v, m1) \<Rightarrow> (Abort, v, m1))
      else
        (case ptr_diff pos (Vector_begin this) of
           None \<Rightarrow> (UB, this, m)
         | Some iter_distance \<Rightarrow>
             if size_f this = Capacity this then
               (case RawMemory_ctor (if size_f this = 0 then 1 else size_f this * 2) m of
                  (Ret new_data, m1) \<Rightarrow>
                    (case construct_from T (ptr_add (GetAddress new_data) iter_distance) args m1 of
                       (Ret u, m2) \<Rightarrow>
                         (case relocate_n T False (GetAddress (data_f this)) iter_distance
                                 (GetAddress new_data) m2 of
                            (Ret u, m3) \<Rightarrow>
                              (case (if size_f this < iter_distance then (UB, m3)
                                     else relocate_n T False
                                            (ptr_add (GetAddress (data_f this)) iter_distance)
                                            (size_f this - iter_distance)
                                            (ptr_add (GetAddress new_data) (iter_distance + 1)) m3) of
                                 (Ret u, m4) \<Rightarrow>
                                   (case replace_storage this new_data m4 of
                                      (Ret u, v, m5) \<Rightarrow>
                                        (Ret (ptr_add (GetAddress (data_f v)) iter_distance),
                                         v\<lparr>size_f := size_f v + 1\<rparr>, m5)
                                    | (Throw e, v, m5) \<Rightarrow> (Throw e, v, m5)
                                    | (UB, v, m5) \<Rightarrow> (UB, v, m5)
                                    | (Abort, v, m5) \<Rightarrow> (Abort, v, m5))
                               | (Throw e, m4) \<Rightarrow> (Throw e, this, RawMemory_dtor new_data m4)
                               | (UB, m4) \<Rightarrow> (UB, this, m4)
                               | (Abort, m4) \<Rightarrow> (Abort, this, m4))
                          | (Throw e, m3) \<Rightarrow> (Throw e, this, RawMemory_dtor new_data m3)
                          | (UB, m3) \<Rightarrow> (UB, this, m3)
                          | (Abort, m3) \<Rightarrow> (Abort, this, m3))
                     | (Throw e, m2) \<Rightarrow> (Throw e, this, RawMemory_dtor new_data m2)
                     | (UB, m2) \<Rightarrow> (UB, this, m2)
                     | (Abort, m2) \<Rightarrow> (Abort, this, m2))
                | (Throw e, m1) \<Rightarrow> (Throw e, this, m1)
                | (UB, m1) \<Rightarrow> (UB, this, m1)
                | (Abort, m1) \<Rightarrow> (Abort, this, m1))
             else
               (case construct_local T args m of
                  (Ret buffer, m1) \<Rightarrow>
                    (case construct_move T (ptr_add (GetAddress (data_f this)) (size_f this))
                            (fst (Vector_end this), snd (Vector_end this) - 1) m1 of
                       (Ret u, m2) \<Rightarrow>
                         (case RawMemory_index (data_f this) iter_distance of
                            None \<Rightarrow> (Abort, this, m2)
                          | Some p \<Rightarrow>
                              (case std_move_backward T p
                                      (fst (Vector_end this), snd (Vector_end this) - 1)
                                      (Vector_end this) m2 of
                                 (Ret u, m3) \<Rightarrow>
                                   (case assign_at T p (MoveAssign buffer) buffer m3 of
                                      (Ret u, m4) \<Rightarrow>
                                        (Ret p, this\<lparr>size_f := size_f this + 1\<rparr>,
                                         destroy_local (moved_from T buffer) m4)
                                    | (Throw e, m4) \<Rightarrow> (Throw e, this, destroy_local buffer m4)
                                    | (UB, m4) \<Rightarrow> (UB, this, m4)
                                    | (Abort, m4) \<Rightarrow> (Abort, this, m4))
                               | (Throw e, m3) \<Rightarrow> (Throw e, this, destroy_local buffer m3)
                               | (UB, m3) \<Rightarrow> (UB, this, m3)
                               | (Abort, m3) \<Rightarrow> (Abort, this, m3)))
                     | (Throw e, m2) \<Rightarrow> (Throw e, this, destroy_local buffer m2)
                     | (UB, m2) \<Rightarrow> (UB, this, m2)
                     | (Abort, m2) \<Rightarrow> (Abort, this, m2))
                | (Throw e, m1) \<Rightarrow> (Throw e, this, m1)
                | (UB, m1) \<Rightarrow> (UB, this, m1)
                | (Abort, m1) \<Rightarrow> (Abort, this, m1))))"

text \<open>
  \<^verbatim>\<open>Erase(pos)\<close>. The arguments \<^verbatim>\<open>&data_[iter_distance+1]\<close> and \<^verbatim>\<open>&data_[iter_distance]\<close> of
  \<^verbatim>\<open>std::move\<close> go through \<^verbatim>\<open>RawMemory::operator[]\<close> and its assertion before \<^verbatim>\<open>std::move\<close>
  runs; they have no other effect, so the order in which they are evaluated does not show.
  With \<^verbatim>\<open>size_ == 0\<close> there is no \<^verbatim>\<open>end() - 1\<close>.
\<close>

definition Erase ::
  "'a elem_type \<Rightarrow> ptr \<Rightarrow> Vector \<Rightarrow> 'a machine \<Rightarrow> ptr outcome \<times> Vector \<times> 'a machine" where
  "Erase T pos this m =
     (case ptr_diff pos (Vector_begin this) of
        None \<Rightarrow> (UB, this, m)
      | Some iter_distance \<Rightarrow>
          (case RawMemory_index (data_f this) (iter_distance + 1) of
             None \<Rightarrow> (Abort, this, m)
           | Some first \<Rightarrow>
               (case RawMemory_index (data_f this) iter_distance of
                  None \<Rightarrow> (Abort, this, m)
                | Some d_first \<Rightarrow>
                    (case std_move T first (Vector_end this) d_first m of
                       (Ret u, m1) \<Rightarrow>
                         if size_f this = 0 then (UB, this, m1)
                         else
                           (case destroy_n (fst (Vector_end this), snd (Vector_end this) - 1) 1 m1 of
                              (Ret u, m2) \<Rightarrow> (Ret pos, this\<lparr>size_f := size_f this - 1\<rparr>, m2)
                            | (Throw e, m2) \<Rightarrow> (Throw e, this, m2)
                            | (UB, m2) \<Rightarrow> (UB, this, m2)
                            | (Abort, m2) \<Rightarrow> (Abort, this, m2))
                     | (Throw e, m1) \<Rightarrow> (Throw e, this, m1)
                     | (UB, m1) \<Rightarrow> (UB, this, m1)
                     | (Abort, m1) \<Rightarrow> (Abort, this, m1)))))"

text \<open>\<^verbatim>\<open>Insert(pos, const T& value)\<close> and \<^verbatim>\<open>Insert(pos, T&& value)\<close>.\<close>

definition Insert_copy ::
  "'a elem_type \<Rightarrow> ptr \<Rightarrow> 'a \<Rightarrow> Vector \<Rightarrow> 'a machine \<Rightarrow> ptr outcome \<times> Vector \<times> 'a machine" where
  "Insert_copy T pos x this m = Emplace T pos (CopyOf x) this m"

definition Insert_move ::
  "'a elem_type \<Rightarrow> ptr \<Rightarrow> 'a \<Rightarrow> Vector \<Rightarrow> 'a machine \<Rightarrow> ptr outcome \<times> Vector \<times> 'a machine" where
  "Insert_move T pos x this m = Emplace T pos (MoveOf x) this m"

text \<open>
  The parameter of \<^verbatim>\<open>operator=(const Vector& rhs)\<close> is a reference: it is bound to \<^verbatim>\<open>*this\<close>
  itself or to another object, and the source tells the two apart by \<^verbatim>\<open>this != &rhs\<close>.
\<close>

datatype 'o reference = This | Other 'o

definition Vector_assign ::
  "'a elem_type \<Rightarrow> Vector reference \<Rightarrow> Vector \<Rightarrow> 'a machine \<Rightarrow> unit outcome \<times> Vector \<times> 'a machine"
  where
  "Vector_assign T rhs_ref this m =
     (case rhs_ref of
        This \<Rightarrow> (Ret (), this, m)
      | Other rhs \<Rightarrow>
          if size_f rhs > RawMemory_Capacity (data_f this) then
            (case Vector_copy T rhs m of
               (Ret rhs_copy, m1) \<Rightarrow>
                 (case Vector_Swap this rhs_copy of
                    (this1, rhs_copy1) \<Rightarrow>
                      (case Vector_dtor rhs_copy1 m1 of
                         (Ret u, m2) \<Rightarrow> (Ret (), this1\<lparr>size_f := size_f rhs\<rparr>, m2)
                       | (Throw e, m2) \<Rightarrow> (Throw e, this1, m2)
                       | (UB, m2) \<Rightarrow> (UB, this1, m2)
                       | (Abort, m2) \<Rightarrow> (Abort, this1, m2)))
             | (Throw e, m1) \<Rightarrow> (Throw e, this, m1)
             | (UB, m1) \<Rightarrow> (UB, this, m1)
             | (Abort, m1) \<Rightarrow> (Abort, this, m1))
          else if size_f rhs \<ge> size_f this then
            (case std_copy T (GetAddress (data_f rhs))
                    (ptr_add (GetAddress (data_f rhs)) (size_f this))
                    (GetAddress (data_f this)) m of
               (Ret u, m1) \<Rightarrow>
                 (case uninitialized_copy_n T
                         (ptr_add (GetAddress (data_f rhs)) (size_f this))
                         (size_f rhs - size_f this)
                         (ptr_add (GetAddress (data_f this)) (size_f this)) m1 of
                    (Ret u, m2) \<Rightarrow> (Ret (), this\<lparr>size_f := size_f rhs\<rparr>, m2)
                  | (Throw e, m2) \<Rightarrow> (Throw e, this, m2)
                  | (UB, m2) \<Rightarrow> (UB, this, m2)
                  | (Abort, m2) \<Rightarrow> (Abort, this, m2))
             | (Throw e, m1) \<Rightarrow> (Throw e, this, m1)
             | (UB, m1) \<Rightarrow> (UB, this, m1)
             | (Abort, m1) \<Rightarrow> (Abort, this, m1))
          else
            (case std_copy T (GetAddress (data_f rhs))
                    (ptr_add (GetAddress (data_f rhs)) (size_f rhs))
                    (GetAddress (data_f this)) m of
               (Ret u, m1) \<Rightarrow>
                 (case destroy_n (ptr_add (GetAddress (data_f this)) (size_f rhs))
                         (size_f this - size_f rhs) m1 of
                    (Ret u, m2) \<Rightarrow> (Ret (), this\<lparr>size_f := size_f rhs\<rparr>, m2)
                  | (Throw e, m2) \<Rightarrow> (Throw e, this, m2)
                  | (UB, m2) \<Rightarrow> (UB, this, m2)
                  | (Abort, m2) \<Rightarrow> (Abort, this, m2))
             | (Throw e, m1) \<Rightarrow> (Throw e, this, m1)
             | (UB, m1) \<Rightarrow> (UB, this, m1)
             | (Abort, m1) \<Rightarrow> (Abort, this, m1)))"


section \<open>Invariants and the abstraction to element sequences\<close>

text \<open>
  The invariant of \<^verbatim>\<open>RawMemory\<close>: the handle is non-null exactly when the capacity is
  positive.
\<close>

definition RawMemory_inv :: "RawMemory \<Rightarrow> bool" where
  "RawMemory_inv r \<longleftrightarrow> ((buffer_f r \<noteq> None) = (0 < capacity_f r))"

text \<open>A \<^verbatim>\<open>RawMemory\<close> owns its block: a non-null handle designates a live block of
  \<^verbatim>\<open>capacity_\<close> slots.\<close>

definition owns :: "'a machine \<Rightarrow> RawMemory \<Rightarrow> bool" where
  "owns m r \<longleftrightarrow>
     RawMemory_inv r \<and>
     (case buffer_f r of
        None \<Rightarrow> True
      | Some a \<Rightarrow>
          (case block_at m (Some a) of
             None \<Rightarrow> False
           | Some blk \<Rightarrow> length blk = capacity_f r))"

definition slots :: "'a machine \<Rightarrow> Vector \<Rightarrow> 'a slot list" where
  "slots m v = (case block_at m (buffer_f (data_f v)) of None \<Rightarrow> [] | Some blk \<Rightarrow> blk)"

text \<open>
  The invariant of \<^verbatim>\<open>Vector\<close>: the storage is owned, the size is at most the capacity, the
  slots below the size hold live objects and the slots from the size on are uninitialised.
\<close>

definition Vector_inv :: "'a machine \<Rightarrow> Vector \<Rightarrow> bool" where
  "Vector_inv m v \<longleftrightarrow>
     owns m (data_f v) \<and> size_f v \<le> capacity_f (data_f v) \<and>
     list_all is_Obj (take (size_f v) (slots m v)) \<and>
     list_all is_Raw (drop (size_f v) (slots m v))"

definition elems :: "'a machine \<Rightarrow> Vector \<Rightarrow> 'a list" where
  "elems m v = map obj (take (size_f v) (slots m v))"

text \<open>
  \<open>holds m v xs k\<close>: the vector holds the elements \<open>xs\<close>, followed by \<open>k\<close> uninitialised
  slots. This is the invariant with the contents named.
\<close>

definition holds :: "'a machine \<Rightarrow> Vector \<Rightarrow> 'a list \<Rightarrow> nat \<Rightarrow> bool" where
  "holds m v xs k \<longleftrightarrow>
     size_f v = length xs \<and> capacity_f (data_f v) = length xs + k \<and>
     (case buffer_f (data_f v) of
        None \<Rightarrow> xs = [] \<and> k = 0
      | Some a \<Rightarrow>
          0 < length xs + k \<and> a < length (heap m) \<and>
          heap m ! a = Some (map Obj xs @ replicate k Raw))"

text \<open>\<open>splice j ys B\<close> is the block \<open>B\<close> with the slots from \<open>j\<close> on overwritten by \<open>ys\<close>;
  \<open>free buf H\<close> is the free store \<open>H\<close> after the block behind \<open>buf\<close> is released.\<close>

definition splice :: "nat \<Rightarrow> 'b list \<Rightarrow> 'b list \<Rightarrow> 'b list" where
  "splice j ys B = take j B @ ys @ drop (j + length ys) B"

definition free :: "addr option \<Rightarrow> 'b option list \<Rightarrow> 'b option list" where
  "free buf H = (case buf of None \<Rightarrow> H | Some a \<Rightarrow> H[a := None])"

text \<open>
  The vocabulary of relocation: whether the \<^verbatim>\<open>if constexpr\<close> takes the moving branch, the
  constructor call that relocates an element, the value that the relocation leaves in the
  old slot, and whether every element of a sequence relocates without throwing.
\<close>

definition uses_move :: "'a elem_type \<Rightarrow> bool" where
  "uses_move T \<longleftrightarrow> nothrow_move_constructible T \<or> \<not> copy_constructible T"

definition reloc_call :: "'a elem_type \<Rightarrow> 'a \<Rightarrow> 'a call" where
  "reloc_call T x = (if uses_move T then MoveCtor x else CopyCtor x)"

definition src_after :: "'a elem_type \<Rightarrow> 'a \<Rightarrow> 'a" where
  "src_after T x = (if uses_move T then moved_from T x else x)"

definition reloc_ok :: "'a elem_type \<Rightarrow> 'a \<Rightarrow> bool" where
  "reloc_ok T x \<longleftrightarrow> \<not> may_throw T (reloc_call T x)"

definition relocatable :: "'a elem_type \<Rightarrow> 'a list \<Rightarrow> bool" where
  "relocatable T xs = list_all (reloc_ok T) xs"


text \<open>
  The calls of a construction loop that fails: the elements before the first one whose
  construction throws are constructed, the construction of that one is attempted, and the
  objects constructed so far are destroyed, in the order of \<open>construct_n\<close>.
\<close>

definition rollback_log :: "('a \<Rightarrow> 'a call) \<Rightarrow> ('a \<Rightarrow> bool) \<Rightarrow> 'a list \<Rightarrow> 'a call list" where
  "rollback_log c ok xs =
     map c (takeWhile ok xs) @ [c (hd (dropWhile ok xs))] @ map Dtor (takeWhile ok xs)"

section \<open>Conditions and outcomes of the operations\<close>

text \<open>The capacity after a growth: \<^verbatim>\<open>size_ == 0 ? 1 : size_ * 2\<close>.\<close>

definition grown :: "nat \<Rightarrow> nat" where
  "grown n = (if n = 0 then 1 else n * 2)"

text \<open>An element whose copy construction, or whose copy assignment, does not throw.\<close>

definition copy_ok :: "'a elem_type \<Rightarrow> 'a \<Rightarrow> bool" where
  "copy_ok T x \<longleftrightarrow> \<not> may_throw T (CopyCtor x)"

definition assign_ok :: "'a elem_type \<Rightarrow> 'a \<Rightarrow> bool" where
  "assign_ok T x \<longleftrightarrow> \<not> may_throw T (CopyAssign x)"

text \<open>Two objects are separate when they do not share a block.\<close>

definition separate :: "Vector \<Rightarrow> Vector \<Rightarrow> bool" where
  "separate v w \<longleftrightarrow> buffer_f (data_f v) = None \<or> buffer_f (data_f v) \<noteq> buffer_f (data_f w)"

text \<open>
  Copy assignment of a source holding \<open>ys\<close> to a destination holding \<open>xs\<close> with \<open>k\<close> raw
  slots behind them: the calls into the element type that each of the three branches of
  \<^verbatim>\<open>operator=(const Vector&)\<close> makes when nothing fails, and the condition under which
  nothing fails.
\<close>

definition assign_log :: "'a list \<Rightarrow> nat \<Rightarrow> 'a list \<Rightarrow> 'a call list" where
  "assign_log xs k ys =
     (if length xs + k < length ys then map CopyCtor ys @ map Dtor xs
      else if length xs \<le> length ys
        then map CopyAssign (take (length xs) ys) @ map CopyCtor (drop (length xs) ys)
      else map CopyAssign ys @ map Dtor (drop (length ys) xs))"

definition assign_succeeds :: "'a elem_type \<Rightarrow> 'a machine \<Rightarrow> 'a list \<Rightarrow> nat \<Rightarrow> 'a list \<Rightarrow> bool" where
  "assign_succeeds T m xs k ys =
     (if length xs + k < length ys
      then \<not> new_fails m (length (heap m)) (length ys) \<and> list_all (copy_ok T) ys
      else list_all (assign_ok T) (take (length xs) ys) \<and> list_all (copy_ok T) (drop (length xs) ys))"

text \<open>
  What a member function leaves behind: \<open>preserves\<close> says that the call has defined
  behaviour and that the vector satisfies its invariant afterwards, whether the call
  returned or threw; \<open>preserves_on_return\<close> asks for the invariant after a normal return
  only. \<open>constructs\<close> is the same for a constructor, which leaves no object when it throws.
\<close>

definition preserves :: "'r outcome \<times> Vector \<times> 'a machine \<Rightarrow> bool" where
  "preserves res =
     (case res of
        (Ret r, v, m) \<Rightarrow> Vector_inv m v
      | (Throw e, v, m) \<Rightarrow> Vector_inv m v
      | (UB, v, m) \<Rightarrow> False
      | (Abort, v, m) \<Rightarrow> False)"

definition preserves_on_return :: "'r outcome \<times> Vector \<times> 'a machine \<Rightarrow> bool" where
  "preserves_on_return res =
     (case res of
        (Ret r, v, m) \<Rightarrow> Vector_inv m v
      | (Throw e, v, m) \<Rightarrow> True
      | (UB, v, m) \<Rightarrow> False
      | (Abort, v, m) \<Rightarrow> False)"

definition constructs :: "Vector outcome \<times> 'a machine \<Rightarrow> bool" where
  "constructs res =
     (case res of
        (Ret v, m) \<Rightarrow> Vector_inv m v
      | (Throw e, m) \<Rightarrow> True
      | (UB, m) \<Rightarrow> False
      | (Abort, m) \<Rightarrow> False)"

section \<open>Sample element types and vectors\<close>

text \<open>
  Three element types over the naturals, of four bytes, whose moves leave \<open>0\<close> behind: one
  that never
  throws and has a \<^verbatim>\<open>noexcept\<close> move constructor; one that is copyable, has a move
  constructor that may throw, and whose copy constructor throws on the value \<open>2\<close>; and one
  that cannot be copied and whose move constructor throws on the value \<open>2\<close>. A machine
  whose only block holds the elements \<open>1, 2\<close>, and the vector that owns this block.
\<close>

definition plain_T :: "nat elem_type" where
  "plain_T = \<lparr>nothrow_move_constructible = True, copy_constructible = True,
     throws = (\<lambda>c. False), moved_from = (\<lambda>x. 0), default_value = 0, size_of = 4\<rparr>"

definition copy_T :: "nat elem_type" where
  "copy_T = \<lparr>nothrow_move_constructible = False, copy_constructible = True,
     throws = (\<lambda>c. c = CopyCtor 2), moved_from = (\<lambda>x. 0), default_value = 0, size_of = 4\<rparr>"

definition move_only_T :: "nat elem_type" where
  "move_only_T = \<lparr>nothrow_move_constructible = False, copy_constructible = False,
     throws = (\<lambda>c. c = MoveCtor 2), moved_from = (\<lambda>x. 0), default_value = 0, size_of = 4\<rparr>"

definition machine_12 :: "nat machine" where
  "machine_12 = \<lparr>heap = [Some [Obj 1, Obj 2]], log = [], new_fails = (\<lambda>k n. False)\<rparr>"

definition vector_12 :: Vector where
  "vector_12 = \<lparr>data_f = \<lparr>buffer_f = Some 0, capacity_f = 2\<rparr>, size_f = 2\<rparr>"

text \<open>
  An element type whose move assignment from the value \<open>5\<close> throws, and a vector \<open>1, 2\<close>
  with capacity 4.
\<close>

definition assign_T :: "nat elem_type" where
  "assign_T = \<lparr>nothrow_move_constructible = True, copy_constructible = True,
     throws = (\<lambda>c. c = MoveAssign 5), moved_from = (\<lambda>x. 0), default_value = 0, size_of = 4\<rparr>"

definition machine_room :: "nat machine" where
  "machine_room = \<lparr>heap = [Some [Obj 1, Obj 2, Raw, Raw]], log = [], new_fails = (\<lambda>k n. False)\<rparr>"

definition vector_room :: Vector where
  "vector_room = \<lparr>data_f = \<lparr>buffer_f = Some 0, capacity_f = 4\<rparr>, size_f = 2\<rparr>"

text \<open>
  A free store with two blocks: the one of the vector \<open>1, 2\<close> (capacity 2) and the one of a
  vector \<open>7, 8, 9\<close> with capacity 4.
\<close>

definition machine_pair :: "nat machine" where
  "machine_pair = \<lparr>heap = [Some [Obj 1, Obj 2], Some [Obj 7, Obj 8, Obj 9, Raw]], log = [],
     new_fails = (\<lambda>k n. False)\<rparr>"

definition vector_789 :: Vector where
  "vector_789 = \<lparr>data_f = \<lparr>buffer_f = Some 1, capacity_f = 4\<rparr>, size_f = 3\<rparr>"

section \<open>Calling sequences\<close>

text \<open>
  A caller that appends one element after the other, stopping at the first call that does
  not return; and the capacities that the specification announces for \<open>n\<close> appends to an
  empty vector: the capacity grows exactly when the size has reached it, first to 1 and
  then to its double.
\<close>

fun push_all ::
  "'a elem_type \<Rightarrow> 'a init list \<Rightarrow> Vector \<Rightarrow> 'a machine \<Rightarrow> unit outcome \<times> Vector \<times> 'a machine" where
  "push_all T [] v m = (Ret (), v, m)"
| "push_all T (a # as) v m =
     (case PushBack T a v m of
        (Ret u, v1, m1) \<Rightarrow> push_all T as v1 m1
      | (Throw e, v1, m1) \<Rightarrow> (Throw e, v1, m1)
      | (UB, v1, m1) \<Rightarrow> (UB, v1, m1)
      | (Abort, v1, m1) \<Rightarrow> (Abort, v1, m1))"


text \<open>The machine at start: no block, no call, and memory for every request.\<close>

definition machine_0 :: "nat machine" where
  "machine_0 = \<lparr>heap = [], log = [], new_fails = (\<lambda>k n. False)\<rparr>"

text \<open>
  The vector \<open>7, 8, 9\<close> as three calls of \<^verbatim>\<open>PushBack\<close> on an empty vector leave it, with
  capacity 4, and the machine it lives in.
\<close>

definition vector_pushed :: Vector where
  "vector_pushed = fst (snd (push_all plain_T [CopyOf 7, CopyOf 8, CopyOf 9] Vector_default machine_0))"

definition machine_pushed :: "nat machine" where
  "machine_pushed = snd (snd (push_all plain_T [CopyOf 7, CopyOf 8, CopyOf 9] Vector_default machine_0))"

section \<open>Properties of the algorithms\<close>

lemma splice_Nil [simp]: "splice j [] B = B"
  by (simp add: splice_def)

lemma splice_Cons: "j < length B \<Longrightarrow> splice j (y # ys) B = splice (Suc j) ys (B[j := y])"
  by (simp add: splice_def take_Suc_conv_app_nth drop_update_cancel)

lemma length_splice [simp]: "j + length ys \<le> length B \<Longrightarrow> length (splice j ys B) = length B"
  by (simp add: splice_def)

lemma list_update_same: "xs ! i = y \<Longrightarrow> xs[i := y] = xs"
  by auto

lemma slot_at_live:
  "a < length (heap m) \<Longrightarrow> heap m ! a = Some A \<Longrightarrow>
   slot_at m (Some a, i) = (if i < length A then Some (A ! i) else None)"
  by (simp add: slot_at_def block_at_def)

lemma store_live:
  "a < length (heap m) \<Longrightarrow> heap m ! a = Some A \<Longrightarrow>
   store (Some a, i) s m = m\<lparr>heap := (heap m)[a := Some (A[i := s])]\<rparr>"
  by (simp add: store_def block_at_def)

lemma take_drop_Cons:
  "take (Suc n) (drop i A) = y # ys \<Longrightarrow> i < length A \<and> A ! i = y \<and> take n (drop (Suc i) A) = ys"
  by (cases "i < length A") (auto simp: Cons_nth_drop_Suc[symmetric])

lemma construct_copy_step:
  assumes "a \<noteq> b" "a < length (heap m)" "b < length (heap m)"
    "heap m ! a = Some A" "heap m ! b = Some B" "i < length A" "A ! i = Obj x" "j < length B"
  shows "construct_copy T (Some b, j) (Some a, i) m =
     (if may_throw T (CopyCtor x) then (Throw elem_exn, m\<lparr>log := log m @ [CopyCtor x]\<rparr>)
      else (Ret (), m\<lparr>heap := (heap m)[b := Some (B[j := Obj x])], log := log m @ [CopyCtor x]\<rparr>))"
  using assms
  by (simp add: construct_copy_def placement_new_def slot_at_live store_live log_call_def)

lemma destroy_at_live:
  assumes "b < length (heap m)" "heap m ! b = Some B" "j < length B" "B ! j = Obj x"
  shows "destroy_at (Some b, j) m = (Ret (), m\<lparr>heap := (heap m)[b := Some (B[j := Raw])], log := log m @ [Dtor x]\<rparr>)"
  using assms by (simp add: destroy_at_def slot_at_live store_live log_call_def)

lemma splice_same: "take (length ys) (drop j B) = ys \<Longrightarrow> splice j ys B = B"
proof -
  assume h: "take (length ys) (drop j B) = ys"
  have "take j B @ (take (length ys) (drop j B) @ drop (length ys) (drop j B)) = B"
    by (simp only: append_take_drop_id)
  then have "take j B @ (ys @ drop (length ys) (drop j B)) = B"
    by (simp only: h)
  then show ?thesis by (simp add: splice_def add.commute)
qed

lemma destroy_n_live:
  assumes "b < length (heap m)" "heap m ! b = Some B"
    "take (length xs) (drop j B) = map Obj xs"
  shows "destroy_n (Some b, j) (length xs) m =
     (Ret (), m\<lparr>heap := (heap m)[b := Some (splice j (replicate (length xs) Raw) B)],
                 log := log m @ map Dtor xs\<rparr>)"
  using assms
proof (induction xs arbitrary: j B m)
  case Nil
  then show ?case by (simp add: list_update_same)
next
  case (Cons x xs)
  from Cons.prems(3) have B: "j < length B" "B ! j = Obj x" "take (length xs) (drop (Suc j) B) = map Obj xs"
    using take_drop_Cons[of "length xs" j B "Obj x" "map Obj xs"] by auto
  let ?m1 = "m\<lparr>heap := (heap m)[b := Some (B[j := Raw])], log := log m @ [Dtor x]\<rparr>"
  have step: "destroy_at (Some b, j) m = (Ret (), ?m1)"
    using Cons.prems B by (intro destroy_at_live) auto
  have "destroy_n (Some b, Suc j) (length xs) ?m1 =
     (Ret (), ?m1\<lparr>heap := (heap ?m1)[b := Some (splice (Suc j) (replicate (length xs) Raw) (B[j := Raw]))],
                 log := log ?m1 @ map Dtor xs\<rparr>)"
    using Cons.prems B by (intro Cons.IH) (auto simp: drop_update_cancel)
  then show ?case using step B by (simp add: ptr_add_def splice_Cons)
qed

lemma construct_n_0 [simp]: "construct_n step src 0 dst m = (Ret (), m)"
  by (simp add: construct_n_def)

lemma splice_twice:
  "length ys = length zs \<Longrightarrow> j + length zs \<le> length B \<Longrightarrow>
   splice j ys (splice j zs B) = splice j ys B"
  by (simp add: splice_def)

lemma take_drop_splice:
  "j + length zs \<le> length B \<Longrightarrow> take (length zs) (drop j (splice j zs B)) = zs"
  by (simp add: splice_def)

lemma take_take_drop:
  "take n (drop j B) = replicate n s \<Longrightarrow> k \<le> n \<Longrightarrow> take k (drop j B) = replicate k s"
  by (metis min.absorb1 take_replicate take_take)

lemma upto_copy:
  assumes "a \<noteq> b" "a < length (heap m)" "b < length (heap m)"
    "heap m ! a = Some A" "heap m ! b = Some B"
    "take (length xs) (drop i A) = map Obj xs"
    "j + length xs \<le> length B"
  shows "construct_upto (construct_copy T) (Some a, i) (length xs) (Some b, j) m =
     (if list_all (\<lambda>x. \<not> may_throw T (CopyCtor x)) xs then Ret () else Throw elem_exn,
      length (takeWhile (\<lambda>x. \<not> may_throw T (CopyCtor x)) xs),
      m\<lparr>heap := (heap m)[b := Some (splice j (map Obj (takeWhile (\<lambda>x. \<not> may_throw T (CopyCtor x)) xs)) B)],
        log := log m @ map CopyCtor (takeWhile (\<lambda>x. \<not> may_throw T (CopyCtor x)) xs) @
                 (if list_all (\<lambda>x. \<not> may_throw T (CopyCtor x)) xs then []
                  else [CopyCtor (hd (dropWhile (\<lambda>x. \<not> may_throw T (CopyCtor x)) xs))])\<rparr>)"
  using assms
proof (induction xs arbitrary: i j B m)
  case Nil
  then show ?case by (simp add: list_update_same)
next
  case (Cons x xs)
  let ?ok = "\<lambda>x. \<not> may_throw T (CopyCtor x)"
  from Cons.prems(6) have A: "i < length A" "A ! i = Obj x" "take (length xs) (drop (Suc i) A) = map Obj xs"
    using take_drop_Cons[of "length xs" i A "Obj x" "map Obj xs"] by auto
  have B: "j < length B" using Cons.prems(7) by simp
  let ?m1 = "m\<lparr>heap := (heap m)[b := Some (B[j := Obj x])], log := log m @ [CopyCtor x]\<rparr>"
  have step: "construct_copy T (Some b, j) (Some a, i) m =
     (if may_throw T (CopyCtor x) then (Throw elem_exn, m\<lparr>log := log m @ [CopyCtor x]\<rparr>)
      else (Ret (), ?m1))"
    using Cons.prems A B by (intro construct_copy_step) auto
  show ?case
  proof (cases "may_throw T (CopyCtor x)")
    case True
    then show ?thesis using step Cons.prems(5) by (simp add: list_update_same)
  next
    case False
    have IH: "construct_upto (construct_copy T) (Some a, Suc i) (length xs) (Some b, Suc j) ?m1 =
       (if list_all ?ok xs then Ret () else Throw elem_exn,
        length (takeWhile ?ok xs),
        ?m1\<lparr>heap := (heap ?m1)[b := Some (splice (Suc j) (map Obj (takeWhile ?ok xs)) (B[j := Obj x]))],
          log := log ?m1 @ map CopyCtor (takeWhile ?ok xs) @
                 (if list_all ?ok xs then [] else [CopyCtor (hd (dropWhile ?ok xs))])\<rparr>)"
      using Cons.prems A B by (intro Cons.IH) auto
    show ?thesis using step False IH B
      by (simp add: ptr_add_def splice_Cons)
  qed
qed

lemma uninit_copy:
  assumes "a \<noteq> b" "a < length (heap m)" "b < length (heap m)"
    "heap m ! a = Some A" "heap m ! b = Some B"
    "take (length xs) (drop i A) = map Obj xs"
    "j + length xs \<le> length B"
    "take (length xs) (drop j B) = replicate (length xs) Raw"
  shows "(list_all (\<lambda>x. \<not> may_throw T (CopyCtor x)) xs \<longrightarrow>
            construct_n (construct_copy T) (Some a, i) (length xs) (Some b, j) m =
              (Ret (), m\<lparr>heap := (heap m)[b := Some (splice j (map Obj xs) B)],
                          log := log m @ map CopyCtor xs\<rparr>))
       \<and> (\<not> list_all (\<lambda>x. \<not> may_throw T (CopyCtor x)) xs \<longrightarrow>
            (\<exists>m'. construct_n (construct_copy T) (Some a, i) (length xs) (Some b, j) m =
                    (Throw elem_exn, m') \<and> heap m' = heap m \<and> new_fails m' = new_fails m \<and>
                   log m' = log m @ rollback_log CopyCtor (\<lambda>x. \<not> may_throw T (CopyCtor x)) xs))"
proof -
  let ?ok = "\<lambda>x. \<not> may_throw T (CopyCtor x)"
  let ?tw = "takeWhile ?ok xs"
  note U = upto_copy[OF assms(1-7), of T]
  show ?thesis
  proof (cases "list_all ?ok xs")
    case True
    then have tw: "?tw = xs" by (simp add: takeWhile_eq_all_conv list_all_iff)
    show ?thesis using True U by (simp add: construct_n_def tw)
  next
    case False
    let ?B1 = "splice j (map Obj ?tw) B"
    let ?m1 = "m\<lparr>heap := (heap m)[b := Some ?B1],
        log := log m @ map CopyCtor ?tw @ [CopyCtor (hd (dropWhile ?ok xs))]\<rparr>"
    have U': "construct_upto (construct_copy T) (Some a, i) (length xs) (Some b, j) m =
        (Throw elem_exn, length ?tw, ?m1)"
      using U False by simp
    have le: "length ?tw \<le> length xs" by (rule length_takeWhile_le)
    have fit: "j + length (map Obj ?tw) \<le> length B" using le assms(7) by simp
    have hm1: "b < length (heap ?m1)" "heap ?m1 ! b = Some ?B1" using assms(3) by simp_all
    have td: "take (length ?tw) (drop j ?B1) = map Obj ?tw"
      using take_drop_splice[OF fit] by simp
    have D: "destroy_n (Some b, j) (length ?tw) ?m1 =
        (Ret (), ?m1\<lparr>heap := (heap ?m1)[b := Some (splice j (replicate (length ?tw) Raw) ?B1)],
                 log := log ?m1 @ map Dtor ?tw\<rparr>)"
      by (rule destroy_n_live[OF hm1 td])
    have raw: "take (length ?tw) (drop j B) = replicate (length ?tw) Raw"
      using take_take_drop[OF assms(8) le] .
    have restored: "splice j (replicate (length ?tw) Raw) ?B1 = B"
    proof -
      have "splice j (replicate (length ?tw) Raw) ?B1 = splice j (replicate (length ?tw) Raw) B"
        using fit by (intro splice_twice) simp_all
      also have "\<dots> = B" using raw by (intro splice_same) simp
      finally show ?thesis .
    qed
    let ?m' = "?m1\<lparr>heap := (heap ?m1)[b := Some (splice j (replicate (length ?tw) Raw) ?B1)],
                 log := log ?m1 @ map Dtor ?tw\<rparr>"
    have E: "construct_n (construct_copy T) (Some a, i) (length xs) (Some b, j) m = (Throw elem_exn, ?m')"
      by (simp only: construct_n_def U' prod.case outcome.case D rethrow_def)
    have "heap ?m' = heap m" using assms(5) by (simp only: restored) (simp add: list_update_same)
    moreover have "new_fails ?m' = new_fails m" by simp
    moreover have "log ?m' = log m @ rollback_log CopyCtor ?ok xs" by (simp add: rollback_log_def)
    ultimately show ?thesis using False E by blast
  qed
qed


lemma construct_move_step:
  assumes "a \<noteq> b" "a < length (heap m)" "b < length (heap m)"
    "heap m ! a = Some A" "heap m ! b = Some B" "i < length A" "A ! i = Obj x" "j < length B"
  shows "construct_move T (Some b, j) (Some a, i) m =
     (if may_throw T (MoveCtor x) then (Throw elem_exn, m\<lparr>log := log m @ [MoveCtor x]\<rparr>)
      else (Ret (), m\<lparr>heap := (heap m)[b := Some (B[j := Obj x]), a := Some (A[i := Obj (moved_from T x)])],
                      log := log m @ [MoveCtor x]\<rparr>))"
  using assms
  by (simp add: construct_move_def placement_new_def slot_at_live store_live log_call_def)

lemma upto_move:
  assumes "a \<noteq> b" "a < length (heap m)" "b < length (heap m)"
    "heap m ! a = Some A" "heap m ! b = Some B"
    "take (length xs) (drop i A) = map Obj xs"
    "j + length xs \<le> length B"
  shows "construct_upto (construct_move T) (Some a, i) (length xs) (Some b, j) m =
     (if list_all (\<lambda>x. \<not> may_throw T (MoveCtor x)) xs then Ret () else Throw elem_exn,
      length (takeWhile (\<lambda>x. \<not> may_throw T (MoveCtor x)) xs),
      m\<lparr>heap := (heap m)[b := Some (splice j (map Obj (takeWhile (\<lambda>x. \<not> may_throw T (MoveCtor x)) xs)) B),
                        a := Some (splice i (map (\<lambda>x. Obj (moved_from T x))
                                  (takeWhile (\<lambda>x. \<not> may_throw T (MoveCtor x)) xs)) A)],
        log := log m @ map MoveCtor (takeWhile (\<lambda>x. \<not> may_throw T (MoveCtor x)) xs) @
                 (if list_all (\<lambda>x. \<not> may_throw T (MoveCtor x)) xs then []
                  else [MoveCtor (hd (dropWhile (\<lambda>x. \<not> may_throw T (MoveCtor x)) xs))])\<rparr>)"
  using assms
proof (induction xs arbitrary: i j A B m)
  case Nil
  then show ?case by (simp add: list_update_same)
next
  case (Cons x xs)
  let ?ok = "\<lambda>x. \<not> may_throw T (MoveCtor x)"
  from Cons.prems(6) have A: "i < length A" "A ! i = Obj x" "take (length xs) (drop (Suc i) A) = map Obj xs"
    using take_drop_Cons[of "length xs" i A "Obj x" "map Obj xs"] by auto
  have B: "j < length B" using Cons.prems(7) by simp
  let ?A1 = "A[i := Obj (moved_from T x)]"
  let ?B1 = "B[j := Obj x]"
  let ?m1 = "m\<lparr>heap := (heap m)[b := Some ?B1, a := Some ?A1], log := log m @ [MoveCtor x]\<rparr>"
  have step: "construct_move T (Some b, j) (Some a, i) m =
     (if may_throw T (MoveCtor x) then (Throw elem_exn, m\<lparr>log := log m @ [MoveCtor x]\<rparr>)
      else (Ret (), ?m1))"
    using Cons.prems A B by (intro construct_move_step) auto
  show ?case
  proof (cases "may_throw T (MoveCtor x)")
    case True
    then show ?thesis using step Cons.prems by (simp add: list_update_same)
  next
    case False
    have hp: "a < length (heap ?m1)" "b < length (heap ?m1)" "heap ?m1 ! a = Some ?A1" "heap ?m1 ! b = Some ?B1"
      using Cons.prems by auto
    have IH: "construct_upto (construct_move T) (Some a, Suc i) (length xs) (Some b, Suc j) ?m1 =
       (if list_all ?ok xs then Ret () else Throw elem_exn,
        length (takeWhile ?ok xs),
        ?m1\<lparr>heap := (heap ?m1)[b := Some (splice (Suc j) (map Obj (takeWhile ?ok xs)) ?B1),
                        a := Some (splice (Suc i) (map (\<lambda>x. Obj (moved_from T x)) (takeWhile ?ok xs)) ?A1)],
          log := log ?m1 @ map MoveCtor (takeWhile ?ok xs) @
                 (if list_all ?ok xs then [] else [MoveCtor (hd (dropWhile ?ok xs))])\<rparr>)"
      using Cons.prems(1,7) A B hp
      by (intro Cons.IH) (auto simp: drop_update_cancel)
    show ?thesis using step False IH A B Cons.prems(1)
      by (simp add: ptr_add_def splice_Cons list_update_swap[of a b])
  qed
qed

lemma uninit_move:
  assumes "a \<noteq> b" "a < length (heap m)" "b < length (heap m)"
    "heap m ! a = Some A" "heap m ! b = Some B"
    "take (length xs) (drop i A) = map Obj xs"
    "j + length xs \<le> length B"
    "take (length xs) (drop j B) = replicate (length xs) Raw"
  shows "(list_all (\<lambda>x. \<not> may_throw T (MoveCtor x)) xs \<longrightarrow>
            construct_n (construct_move T) (Some a, i) (length xs) (Some b, j) m =
              (Ret (), m\<lparr>heap := (heap m)[b := Some (splice j (map Obj xs) B),
                                           a := Some (splice i (map (\<lambda>x. Obj (moved_from T x)) xs) A)],
                          log := log m @ map MoveCtor xs\<rparr>))
       \<and> (\<not> list_all (\<lambda>x. \<not> may_throw T (MoveCtor x)) xs \<longrightarrow>
            (\<exists>m'. construct_n (construct_move T) (Some a, i) (length xs) (Some b, j) m =
                    (Throw elem_exn, m') \<and>
                   heap m' = (heap m)[a := Some (splice i (map (\<lambda>x. Obj (moved_from T x))
                                  (takeWhile (\<lambda>x. \<not> may_throw T (MoveCtor x)) xs)) A)] \<and>
                   new_fails m' = new_fails m \<and>
                   log m' = log m @ rollback_log MoveCtor (\<lambda>x. \<not> may_throw T (MoveCtor x)) xs))"
proof -
  let ?ok = "\<lambda>x. \<not> may_throw T (MoveCtor x)"
  let ?tw = "takeWhile ?ok xs"
  let ?A1 = "splice i (map (\<lambda>x. Obj (moved_from T x)) ?tw) A"
  note U = upto_move[OF assms(1-7), of T]
  show ?thesis
  proof (cases "list_all ?ok xs")
    case True
    then have tw: "?tw = xs" by (simp add: takeWhile_eq_all_conv list_all_iff)
    show ?thesis using True U by (simp add: construct_n_def tw)
  next
    case False
    let ?B1 = "splice j (map Obj ?tw) B"
    let ?m1 = "m\<lparr>heap := (heap m)[b := Some ?B1, a := Some ?A1],
        log := log m @ map MoveCtor ?tw @ [MoveCtor (hd (dropWhile ?ok xs))]\<rparr>"
    have U': "construct_upto (construct_move T) (Some a, i) (length xs) (Some b, j) m =
        (Throw elem_exn, length ?tw, ?m1)"
      using U False by simp
    have le: "length ?tw \<le> length xs" by (rule length_takeWhile_le)
    have fit: "j + length (map Obj ?tw) \<le> length B" using le assms(7) by simp
    have hm1: "b < length (heap ?m1)" "heap ?m1 ! b = Some ?B1" using assms(1,2,3) by simp_all
    have td: "take (length ?tw) (drop j ?B1) = map Obj ?tw"
      using take_drop_splice[OF fit] by simp
    have D: "destroy_n (Some b, j) (length ?tw) ?m1 =
        (Ret (), ?m1\<lparr>heap := (heap ?m1)[b := Some (splice j (replicate (length ?tw) Raw) ?B1)],
                 log := log ?m1 @ map Dtor ?tw\<rparr>)"
      by (rule destroy_n_live[OF hm1 td])
    have raw: "take (length ?tw) (drop j B) = replicate (length ?tw) Raw"
      using take_take_drop[OF assms(8) le] .
    have restored: "splice j (replicate (length ?tw) Raw) ?B1 = B"
    proof -
      have "splice j (replicate (length ?tw) Raw) ?B1 = splice j (replicate (length ?tw) Raw) B"
        using fit by (intro splice_twice) simp_all
      also have "\<dots> = B" using raw by (intro splice_same) simp
      finally show ?thesis .
    qed
    let ?m' = "?m1\<lparr>heap := (heap ?m1)[b := Some (splice j (replicate (length ?tw) Raw) ?B1)],
                 log := log ?m1 @ map Dtor ?tw\<rparr>"
    have E: "construct_n (construct_move T) (Some a, i) (length xs) (Some b, j) m = (Throw elem_exn, ?m')"
      by (simp only: construct_n_def U' prod.case outcome.case D rethrow_def)
    have "heap ?m' = (heap m)[a := Some ?A1]"
      using assms(1,5) by (simp only: restored) (simp add: list_update_same list_update_swap[of a b])
    moreover have "new_fails ?m' = new_fails m" by simp
    moreover have "log ?m' = log m @ rollback_log MoveCtor ?ok xs" by (simp add: rollback_log_def)
    ultimately show ?thesis using False E by blast
  qed
qed


lemma placement_new_live:
  assumes "b < length (heap m)" "heap m ! b = Some B" "j < length B"
  shows "placement_new T (Some b, j) c v m =
     (if may_throw T c then (Throw elem_exn, m\<lparr>log := log m @ [c]\<rparr>)
      else (Ret (), m\<lparr>heap := (heap m)[b := Some (B[j := Obj v])], log := log m @ [c]\<rparr>))"
  using assms by (simp add: placement_new_def slot_at_live store_live log_call_def)

lemma upto_value:
  assumes "b < length (heap m)" "heap m ! b = Some B" "j + n \<le> length B"
    "\<not> may_throw T ValueInit"
  shows "construct_upto (\<lambda>p src. placement_new T p ValueInit (default_value T)) (Some b, i) n (Some b, j) m =
     (Ret (), n, m\<lparr>heap := (heap m)[b := Some (splice j (replicate n (Obj (default_value T))) B)],
                    log := log m @ replicate n ValueInit\<rparr>)"
  using assms
proof (induction n arbitrary: i j B m)
  case 0
  then show ?case by (simp add: list_update_same)
next
  case (Suc n)
  have B: "j < length B" using Suc.prems(3) by simp
  let ?B1 = "B[j := Obj (default_value T)]"
  let ?m1 = "m\<lparr>heap := (heap m)[b := Some ?B1], log := log m @ [ValueInit]\<rparr>"
  have step: "placement_new T (Some b, j) ValueInit (default_value T) m = (Ret (), ?m1)"
    using placement_new_live[OF Suc.prems(1,2) B, of T ValueInit "default_value T"] Suc.prems(4) by simp
  have "construct_upto (\<lambda>p src. placement_new T p ValueInit (default_value T)) (Some b, Suc i) n (Some b, Suc j) ?m1 =
     (Ret (), n, ?m1\<lparr>heap := (heap ?m1)[b := Some (splice (Suc j) (replicate n (Obj (default_value T))) ?B1)],
                    log := log ?m1 @ replicate n ValueInit\<rparr>)"
    using Suc.IH[of ?m1 ?B1 "Suc j" "Suc i"] Suc.prems B by auto
  then show ?case using step B
    by (simp add: ptr_add_def splice_Cons replicate_append_same)
qed

lemma uninit_value:
  assumes "b < length (heap m)" "heap m ! b = Some B"
    "j + n \<le> length B" "take n (drop j B) = replicate n Raw"
  shows "(n = 0 \<or> \<not> may_throw T ValueInit \<longrightarrow>
            construct_n (\<lambda>p src. placement_new T p ValueInit (default_value T)) (Some b, i) n (Some b, j) m =
              (Ret (), m\<lparr>heap := (heap m)[b := Some (splice j (replicate n (Obj (default_value T))) B)],
                          log := log m @ replicate n ValueInit\<rparr>))
       \<and> (\<not> (n = 0 \<or> \<not> may_throw T ValueInit) \<longrightarrow>
            (\<exists>m'. construct_n (\<lambda>p src. placement_new T p ValueInit (default_value T)) (Some b, i) n (Some b, j) m =
                    (Throw elem_exn, m') \<and> heap m' = heap m \<and> new_fails m' = new_fails m))"
proof (cases "may_throw T ValueInit")
  case False
  show ?thesis using upto_value[OF assms(1-3) False, of i] False by (simp add: construct_n_def)
next
  case True
  show ?thesis
  proof (cases n)
    case 0
    then show ?thesis using assms(2) by (simp add: list_update_same)
  next
    case (Suc k)
    have B: "j < length B" using assms(3) Suc by simp
    have step: "placement_new T (Some b, j) ValueInit (default_value T) m =
        (Throw elem_exn, m\<lparr>log := log m @ [ValueInit]\<rparr>)"
      using placement_new_live[OF assms(1,2) B, of T ValueInit "default_value T"] True by simp
    show ?thesis using True Suc step by (simp add: construct_n_def rethrow_def)
  qed
qed

lemma assign_at_live:
  assumes "b < length (heap m)" "heap m ! b = Some B" "j < length B" "B ! j = Obj old"
  shows "assign_at T (Some b, j) c v m =
     (if may_throw T c then (Throw elem_exn, m\<lparr>log := log m @ [c]\<rparr>)
      else (Ret (), m\<lparr>heap := (heap m)[b := Some (B[j := Obj v])], log := log m @ [c]\<rparr>))"
  using assms by (simp add: assign_at_def slot_at_live store_live log_call_def)

lemma assign_copy_step:
  assumes "a \<noteq> b" "a < length (heap m)" "b < length (heap m)"
    "heap m ! a = Some A" "heap m ! b = Some B" "i < length A" "A ! i = Obj x"
    "j < length B" "B ! j = Obj old"
  shows "assign_copy T (Some b, j) (Some a, i) m =
     (if may_throw T (CopyAssign x) then (Throw elem_exn, m\<lparr>log := log m @ [CopyAssign x]\<rparr>)
      else (Ret (), m\<lparr>heap := (heap m)[b := Some (B[j := Obj x])], log := log m @ [CopyAssign x]\<rparr>))"
  using assms by (simp add: assign_copy_def slot_at_live assign_at_live)

lemma assign_move_step:
  assumes "a < length (heap m)" "heap m ! a = Some A" "i < length A" "A ! i = Obj x"
    "j < length A" "A ! j = Obj old" "i \<noteq> j"
  shows "assign_move T (Some a, j) (Some a, i) m =
     (if may_throw T (MoveAssign x) then (Throw elem_exn, m\<lparr>log := log m @ [MoveAssign x]\<rparr>)
      else (Ret (), m\<lparr>heap := (heap m)[a := Some (A[j := Obj x, i := Obj (moved_from T x)])],
                      log := log m @ [MoveAssign x]\<rparr>))"
  using assms by (simp add: assign_move_def slot_at_live assign_at_live store_live)

lemma std_copy_loop:
  assumes "a \<noteq> b" "a < length (heap m)" "b < length (heap m)"
    "heap m ! a = Some A" "heap m ! b = Some B"
    "take (length xs) (drop i A) = map Obj xs"
    "take (length xs) (drop j B) = map Obj ys" "length ys = length xs"
  shows "(list_all (\<lambda>x. \<not> may_throw T (CopyAssign x)) xs \<longrightarrow>
            assign_n (assign_copy T) (Some a, i) (length xs) (Some b, j) m =
              (Ret (), m\<lparr>heap := (heap m)[b := Some (splice j (map Obj xs) B)],
                          log := log m @ map CopyAssign xs\<rparr>))
       \<and> (\<not> list_all (\<lambda>x. \<not> may_throw T (CopyAssign x)) xs \<longrightarrow>
            (\<exists>m'. assign_n (assign_copy T) (Some a, i) (length xs) (Some b, j) m =
                    (Throw elem_exn, m') \<and>
                   heap m' = (heap m)[b := Some (splice j (map Obj
                                  (takeWhile (\<lambda>x. \<not> may_throw T (CopyAssign x)) xs)) B)] \<and>
                   new_fails m' = new_fails m))"
  using assms
proof (induction xs arbitrary: i j B ys m)
  case Nil
  then show ?case by (simp add: list_update_same)
next
  case (Cons x xs)
  from Cons.prems(8) obtain y ys' where ys: "ys = y # ys'" "length ys' = length xs"
    by (cases ys) auto
  from Cons.prems(6) have A: "i < length A" "A ! i = Obj x" "take (length xs) (drop (Suc i) A) = map Obj xs"
    using take_drop_Cons[of "length xs" i A "Obj x" "map Obj xs"] by auto
  from Cons.prems(7) ys have B: "j < length B" "B ! j = Obj y" "take (length xs) (drop (Suc j) B) = map Obj ys'"
    using take_drop_Cons[of "length xs" j B "Obj y" "map Obj ys'"] by auto
  let ?B1 = "B[j := Obj x]"
  let ?m1 = "m\<lparr>heap := (heap m)[b := Some ?B1], log := log m @ [CopyAssign x]\<rparr>"
  let ?ok = "\<lambda>x. \<not> may_throw T (CopyAssign x)"
  have step: "assign_copy T (Some b, j) (Some a, i) m =
     (if may_throw T (CopyAssign x) then (Throw elem_exn, m\<lparr>log := log m @ [CopyAssign x]\<rparr>)
      else (Ret (), ?m1))"
    using Cons.prems A B by (intro assign_copy_step) auto
  have IH: "(list_all ?ok xs \<longrightarrow>
            assign_n (assign_copy T) (Some a, Suc i) (length xs) (Some b, Suc j) ?m1 =
              (Ret (), ?m1\<lparr>heap := (heap ?m1)[b := Some (splice (Suc j) (map Obj xs) ?B1)],
                          log := log ?m1 @ map CopyAssign xs\<rparr>))
       \<and> (\<not> list_all ?ok xs \<longrightarrow>
            (\<exists>m'. assign_n (assign_copy T) (Some a, Suc i) (length xs) (Some b, Suc j) ?m1 =
                    (Throw elem_exn, m') \<and>
                  heap m' = (heap ?m1)[b := Some (splice (Suc j) (map Obj (takeWhile ?ok xs)) ?B1)] \<and>
                  new_fails m' = new_fails ?m1))"
    using Cons.prems(1-5) A B ys
    by (intro Cons.IH[where ys = ys']) (auto simp: drop_update_cancel)
  show ?case
  proof (cases "may_throw T (CopyAssign x)")
    case True
    then show ?thesis using step Cons.prems by (simp add: ptr_add_def list_update_same)
  next
    case False
    then show ?thesis using step IH B
      by (cases "list_all ?ok xs") (auto simp: ptr_add_def splice_Cons)
  qed
qed

lemma splice_update_inside:
  "j \<le> k \<Longrightarrow> k < j + length ys \<Longrightarrow> splice j ys (B[k := s]) = splice j ys B"
  by (simp add: splice_def drop_update_cancel take_update_cancel)

lemma splice_snoc:
  "j + length ys < length B \<Longrightarrow> splice j (ys @ [y]) B = splice j ys (B[j + length ys := y])"
  by (simp add: splice_def take_update_cancel upd_conv_take_nth_drop drop_take
      Cons_nth_drop_Suc[symmetric] add.commute)

lemma take_drop_nth:
  "take n (drop i A) = ys \<Longrightarrow> k < length ys \<Longrightarrow> i + k < length A \<and> A ! (i + k) = ys ! k"
proof -
  assume h: "take n (drop i A) = ys" and k: "k < length ys"
  from h have "length ys = min n (length A - i)" by auto
  with k have "i + k < length A" "k < n" by auto
  moreover from this h have "ys ! k = A ! (i + k)" by auto
  ultimately show ?thesis by simp
qed

lemma shift_left_loop:
  assumes "a < length (heap m)" "heap m ! a = Some A"
    "take (Suc (length xs)) (drop i A) = map Obj (y # xs)"
  shows "(list_all (\<lambda>x. \<not> may_throw T (MoveAssign x)) xs \<longrightarrow>
            assign_n (assign_move T) (Some a, Suc i) (length xs) (Some a, i) m =
              (Ret (), m\<lparr>heap := (heap m)[a := Some (splice i
                             (map Obj (xs @ [if xs = [] then y else moved_from T (last xs)])) A)],
                          log := log m @ map MoveAssign xs\<rparr>))
       \<and> (\<not> list_all (\<lambda>x. \<not> may_throw T (MoveAssign x)) xs \<longrightarrow>
            (\<exists>m' zs. assign_n (assign_move T) (Some a, Suc i) (length xs) (Some a, i) m =
                    (Throw elem_exn, m') \<and> length zs = Suc (length xs) \<and>
                   heap m' = (heap m)[a := Some (splice i (map Obj zs) A)] \<and>
                   new_fails m' = new_fails m))"
  using assms
proof (induction xs arbitrary: i y A m)
  case Nil
  then have "splice i [Obj y] A = A" by (intro splice_same) simp
  then show ?case using Nil by (simp add: list_update_same)
next
  case (Cons x xs)
  let ?ok = "\<lambda>x. \<not> may_throw T (MoveAssign x)"
  from Cons.prems(3) have A: "i < length A" "A ! i = Obj y"
      "take (Suc (length xs)) (drop (Suc i) A) = map Obj (x # xs)"
    using take_drop_Cons[of "Suc (length xs)" i A "Obj y" "map Obj (x # xs)"] by auto
  from A(3) have A': "Suc i < length A" "A ! Suc i = Obj x"
      "take (length xs) (drop (Suc (Suc i)) A) = map Obj xs"
    using take_drop_Cons[of "length xs" "Suc i" A "Obj x" "map Obj xs"] by auto
  let ?A1 = "A[i := Obj x, Suc i := Obj (moved_from T x)]"
  let ?m1 = "m\<lparr>heap := (heap m)[a := Some ?A1], log := log m @ [MoveAssign x]\<rparr>"
  have step: "assign_move T (Some a, i) (Some a, Suc i) m =
     (if may_throw T (MoveAssign x) then (Throw elem_exn, m\<lparr>log := log m @ [MoveAssign x]\<rparr>)
      else (Ret (), ?m1))"
    using Cons.prems A A' by (intro assign_move_step) auto
  have same: "splice i (map Obj (y # x # xs)) A = A"
    using Cons.prems(3) by (intro splice_same) simp
  have pre1: "take (Suc (length xs)) (drop (Suc i) ?A1) = map Obj (moved_from T x # xs)"
    using A' by (simp add: drop_update_cancel Cons_nth_drop_Suc[symmetric])
  have IH: "(list_all ?ok xs \<longrightarrow>
            assign_n (assign_move T) (Some a, Suc (Suc i)) (length xs) (Some a, Suc i) ?m1 =
              (Ret (), ?m1\<lparr>heap := (heap ?m1)[a := Some (splice (Suc i)
                             (map Obj (xs @ [if xs = [] then moved_from T x else moved_from T (last xs)])) ?A1)],
                          log := log ?m1 @ map MoveAssign xs\<rparr>))
       \<and> (\<not> list_all ?ok xs \<longrightarrow>
            (\<exists>m' zs. assign_n (assign_move T) (Some a, Suc (Suc i)) (length xs) (Some a, Suc i) ?m1 =
                    (Throw elem_exn, m') \<and> length zs = Suc (length xs) \<and>
                   heap m' = (heap ?m1)[a := Some (splice (Suc i) (map Obj zs) ?A1)] \<and>
                   new_fails m' = new_fails ?m1))"
    using Cons.prems(1) pre1 by (intro Cons.IH) auto
  have sp: "\<And>W. W \<noteq> [] \<Longrightarrow> splice (Suc i) W ?A1 = splice i (Obj x # W) A"
    using A by (simp add: splice_Cons splice_update_inside)
  show ?case
  proof (cases "may_throw T (MoveAssign x)")
    case True
    have "length (y # x # xs) = Suc (length (x # xs))" by simp
    then show ?thesis using step True same Cons.prems
      by (auto simp: ptr_add_def list_update_same intro!: exI[of _ "y # x # xs"])
  next
    case False
    show ?thesis
    proof (cases "list_all ?ok xs")
      case True
      then show ?thesis using step False IH sp[of "map Obj (xs @ [if xs = [] then moved_from T x else moved_from T (last xs)])"]
        by (simp add: ptr_add_def)
    next
      case nt: False
      then obtain m' zs where m': "assign_n (assign_move T) (Some a, Suc (Suc i)) (length xs) (Some a, Suc i) ?m1 =
                    (Throw elem_exn, m')" "length zs = Suc (length xs)"
                   "heap m' = (heap ?m1)[a := Some (splice (Suc i) (map Obj zs) ?A1)]"
                   "new_fails m' = new_fails ?m1"
        using IH by blast
      have "zs \<noteq> []" using m'(2) by auto
      then have "heap m' = (heap m)[a := Some (splice i (map Obj (x # zs)) A)]"
        using m'(3) sp[of "map Obj zs"] by simp
      moreover have "length (x # zs) = Suc (length (x # xs))" using m'(2) by simp
      ultimately show ?thesis using step False nt m'(1,4)
        by (auto simp: ptr_add_def intro!: exI[of _ "x # zs"])
    qed
  qed
qed


lemma shift_right_loop:
  assumes "a < length (heap m)" "heap m ! a = Some A"
    "take (Suc (length xs)) (drop i A) = map Obj (xs @ [z])"
  shows "(list_all (\<lambda>x. \<not> may_throw T (MoveAssign x)) xs \<longrightarrow>
            assign_down T (Some a, i) (length xs) (Some a, Suc i) m =
              (Ret (), m\<lparr>heap := (heap m)[a := Some (splice i
                             (map Obj ((if xs = [] then z else moved_from T (hd xs)) # xs)) A)],
                          log := log m @ map MoveAssign (rev xs)\<rparr>))
       \<and> (\<not> list_all (\<lambda>x. \<not> may_throw T (MoveAssign x)) xs \<longrightarrow>
            (\<exists>m' zs. assign_down T (Some a, i) (length xs) (Some a, Suc i) m =
                    (Throw elem_exn, m') \<and> length zs = Suc (length xs) \<and>
                   heap m' = (heap m)[a := Some (splice i (map Obj zs) A)] \<and>
                   new_fails m' = new_fails m))"
  using assms
proof (induction xs arbitrary: z A m rule: rev_induct)
  case Nil
  then have "splice i [Obj z] A = A" by (intro splice_same) simp
  then show ?case using Nil by (simp add: list_update_same)
next
  case (snoc x xs)
  let ?ok = "\<lambda>x. \<not> may_throw T (MoveAssign x)"
  let ?n = "length xs"
  have pre: "take (Suc (Suc ?n)) (drop i A) = map Obj (xs @ [x, z])"
    using snoc.prems(3) by simp
  have Ax: "i + ?n < length A" "A ! (i + ?n) = Obj x"
    using take_drop_nth[OF pre, of ?n] by (auto simp: nth_append)
  have Az: "i + Suc ?n < length A" "A ! (i + Suc ?n) = Obj z"
    using take_drop_nth[OF pre, of "Suc ?n"] by (auto simp: nth_append)
  let ?A1 = "A[i + Suc ?n := Obj x, i + ?n := Obj (moved_from T x)]"
  let ?m1 = "m\<lparr>heap := (heap m)[a := Some ?A1], log := log m @ [MoveAssign x]\<rparr>"
  have step: "assign_move T (Some a, Suc (i + ?n)) (Some a, i + ?n) m =
     (if may_throw T (MoveAssign x) then (Throw elem_exn, m\<lparr>log := log m @ [MoveAssign x]\<rparr>)
      else (Ret (), ?m1))"
    using snoc.prems Ax Az assign_move_step[of a m A "i + ?n" x "Suc (i + ?n)" z T] by simp
  have same: "splice i (map Obj (xs @ [x, z])) A = A"
    using pre by (intro splice_same) simp
  have "take (Suc ?n) (drop i A) = take (Suc ?n) (take (Suc (Suc ?n)) (drop i A))"
    by simp
  also have "\<dots> = map Obj (xs @ [x])" by (simp only: pre) simp
  finally have t1: "take (Suc ?n) (drop i A) = map Obj (xs @ [x])" .
  have pre1: "take (Suc ?n) (drop i ?A1) = map Obj (xs @ [moved_from T x])"
  proof -
    have "take (Suc ?n) (drop i ?A1) = (take (Suc ?n) (drop i A))[?n := Obj (moved_from T x)]"
      by (simp add: drop_update_swap take_update_swap list_update_beyond)
    then show ?thesis by (simp add: t1 list_update_append)
  qed
  have IH: "(list_all ?ok xs \<longrightarrow>
            assign_down T (Some a, i) ?n (Some a, Suc i) ?m1 =
              (Ret (), ?m1\<lparr>heap := (heap ?m1)[a := Some (splice i
                             (map Obj ((if xs = [] then moved_from T x else moved_from T (hd xs)) # xs)) ?A1)],
                          log := log ?m1 @ map MoveAssign (rev xs)\<rparr>))
       \<and> (\<not> list_all ?ok xs \<longrightarrow>
            (\<exists>m' zs. assign_down T (Some a, i) ?n (Some a, Suc i) ?m1 =
                    (Throw elem_exn, m') \<and> length zs = Suc ?n \<and>
                   heap m' = (heap ?m1)[a := Some (splice i (map Obj zs) ?A1)] \<and>
                   new_fails m' = new_fails ?m1))"
    using snoc.prems(1) pre1 by (intro snoc.IH) auto
  have sp: "\<And>W. length W = Suc ?n \<Longrightarrow> splice i W ?A1 = splice i (W @ [Obj x]) A"
    using Az by (simp add: splice_snoc splice_update_inside)
  show ?case
  proof (cases "may_throw T (MoveAssign x)")
    case True
    then show ?thesis using step same snoc.prems
      by (auto simp: ptr_add_def list_update_same intro!: exI[of _ "xs @ [x, z]"])
  next
    case False
    show ?thesis
    proof (cases "list_all ?ok xs")
      case True
      then show ?thesis
        using step False IH sp[of "map Obj ((if xs = [] then moved_from T x else moved_from T (hd xs)) # xs)"]
        by (simp add: ptr_add_def)
    next
      case nt: False
      then obtain m' zs where m': "assign_down T (Some a, i) ?n (Some a, Suc i) ?m1 =
                    (Throw elem_exn, m')" "length zs = Suc ?n"
                   "heap m' = (heap ?m1)[a := Some (splice i (map Obj zs) ?A1)]"
                   "new_fails m' = new_fails ?m1"
        using IH by blast
      have "heap m' = (heap m)[a := Some (splice i (map Obj (zs @ [x])) A)]"
        using m'(2,3) sp[of "map Obj zs"] by simp
      moreover have "length (zs @ [x]) = Suc (length (xs @ [x]))" using m'(2) by simp
      ultimately show ?thesis using step False nt m'(1,4)
        by (auto simp: ptr_add_def intro!: exI[of _ "zs @ [x]"])
    qed
  qed
qed


section \<open>Properties of the operations\<close>

lemma RawMemory_eta: "\<lparr>buffer_f = buffer_f r, capacity_f = capacity_f r\<rparr> = r"
  by (cases r) simp

lemma Vector_eta: "\<lparr>data_f = data_f v, size_f = size_f v\<rparr> = v"
  by (cases v) simp

lemma splice_append_same:
  "take (length V) (drop (j + length U) B) = V \<Longrightarrow> splice j (U @ V) B = splice j U B"
proof -
  assume h: "take (length V) (drop (j + length U) B) = V"
  have "drop (j + length U) B = take (length V) (drop (j + length U) B) @ drop (length V) (drop (j + length U) B)"
    by (simp only: append_take_drop_id)
  then have "drop (j + length U) B = V @ drop (length V) (drop (j + length U) B)"
    by (simp only: h)
  then have "drop (j + length U) B = V @ drop (j + (length U + length V)) B"
    by (simp add: add.commute add.left_commute)
  then show ?thesis by (simp add: splice_def)
qed

lemma splice_0_replicate:
  "length ys \<le> n \<Longrightarrow> splice 0 ys (replicate n s) = ys @ replicate (n - length ys) s"
  by (simp add: splice_def)

lemma holds_inv:
  "holds m v xs k \<Longrightarrow> Vector_inv m v \<and> elems m v = xs \<and> Capacity v = length xs + k \<and> Size v = length xs"
  by (auto simp: holds_def Vector_inv_def elems_def owns_def RawMemory_inv_def slots_def
      block_at_def Capacity_def Size_def RawMemory_Capacity_def list_all_iff comp_def
      split: option.splits)

lemma list_all_map_obj: "list_all is_Obj xs \<Longrightarrow> map Obj (map obj xs) = xs"
  by (induction xs) auto

lemma list_all_raw: "list_all is_Raw xs \<Longrightarrow> xs = replicate (length xs) Raw"
  by (induction xs) auto

lemma inv_holds:
  assumes "Vector_inv m v"
  shows "holds m v (elems m v) (capacity_f (data_f v) - size_f v)"
proof (cases "buffer_f (data_f v)")
  case None
  then show ?thesis using assms
    by (auto simp: holds_def Vector_inv_def elems_def owns_def RawMemory_inv_def slots_def block_at_def)
next
  case (Some a)
  then obtain blk where b: "a < length (heap m)" "heap m ! a = Some blk" "length blk = capacity_f (data_f v)"
     "0 < capacity_f (data_f v)"
    using assms by (auto simp: Vector_inv_def owns_def RawMemory_inv_def block_at_def split: option.splits if_splits)
  have s: "slots m v = blk" using Some b by (simp add: slots_def block_at_def)
  have 1: "map Obj (map obj (take (size_f v) blk)) = take (size_f v) blk"
    using assms s by (intro list_all_map_obj) (simp add: Vector_inv_def)
  have 2: "drop (size_f v) blk = replicate (capacity_f (data_f v) - size_f v) Raw"
    using assms s b list_all_raw[of "drop (size_f v) blk"] by (simp add: Vector_inv_def)
  have "blk = take (size_f v) blk @ drop (size_f v) blk" by simp
  then have "blk = map Obj (map obj (take (size_f v) blk)) @ replicate (capacity_f (data_f v) - size_f v) Raw"
    using 1 2 by simp
  moreover have "size_f v \<le> capacity_f (data_f v)" using assms by (simp add: Vector_inv_def)
  ultimately show ?thesis using Some b s
    by (simp add: holds_def elems_def)
qed

lemma Deallocate_eq: "Deallocate buf m = m\<lparr>heap := free buf (heap m)\<rparr>"
  by (simp add: Deallocate_def free_def split: option.splits)

lemma RawMemory_ctor_eq:
  "RawMemory_ctor n m =
     (if n = 0 then (Ret \<lparr>buffer_f = None, capacity_f = 0\<rparr>, m)
      else if new_fails m (length (heap m)) n then (Throw bad_alloc, m)
      else (Ret \<lparr>buffer_f = Some (length (heap m)), capacity_f = n\<rparr>,
            m\<lparr>heap := heap m @ [Some (replicate n Raw)]\<rparr>))"
  by (simp add: RawMemory_ctor_def Allocate_def)

lemma relocate_n_const: "relocate_n T True src n dst m = construct_n (construct_copy T) src n dst m"
  by (simp add: relocate_n_def uninitialized_move_n_def uninitialized_copy_n_def)

lemma relocate_n_cases:
  assumes "a \<noteq> b" "a < length (heap m)" "b < length (heap m)"
    "heap m ! a = Some A" "heap m ! b = Some B"
    "take (length xs) (drop i A) = map Obj xs"
    "j + length xs \<le> length B"
    "take (length xs) (drop j B) = replicate (length xs) Raw"
  shows "(relocatable T xs \<longrightarrow>
            relocate_n T False (Some a, i) (length xs) (Some b, j) m =
              (Ret (), m\<lparr>heap := (heap m)[b := Some (splice j (map Obj xs) B),
                                           a := Some (splice i (map Obj (map (src_after T) xs)) A)],
                          log := log m @ map (reloc_call T) xs\<rparr>))
       \<and> (\<not> relocatable T xs \<longrightarrow>
            (\<exists>m' ys. relocate_n T False (Some a, i) (length xs) (Some b, j) m = (Throw elem_exn, m') \<and>
                   length ys = length xs \<and>
                   heap m' = (heap m)[a := Some (splice i (map Obj ys) A)] \<and>
                   new_fails m' = new_fails m \<and> (\<not> uses_move T \<longrightarrow> ys = xs) \<and>
                   log m' = log m @ rollback_log (reloc_call T) (reloc_ok T) xs))"
proof (cases "uses_move T")
  case True
  let ?ok = "\<lambda>x. \<not> may_throw T (MoveCtor x)"
  have r: "relocatable T xs = list_all ?ok xs"
    using True by (simp add: relocatable_def reloc_ok_def[abs_def] reloc_call_def)
  have e: "relocate_n T False (Some a, i) (length xs) (Some b, j) m
      = construct_n (construct_move T) (Some a, i) (length xs) (Some b, j) m"
    using True by (simp add: relocate_n_def uses_move_def uninitialized_move_n_def)
  note L = uninit_move[OF assms, of T]
  show ?thesis
  proof (cases "list_all ?ok xs")
    case ok: True
    then show ?thesis using L r e True by (simp add: src_after_def reloc_call_def comp_def)
  next
    case nok: False
    then obtain m' where m': "construct_n (construct_move T) (Some a, i) (length xs) (Some b, j) m = (Throw elem_exn, m')"
      "heap m' = (heap m)[a := Some (splice i (map (\<lambda>x. Obj (moved_from T x)) (takeWhile ?ok xs)) A)]"
      "new_fails m' = new_fails m"
      "log m' = log m @ rollback_log MoveCtor ?ok xs"
      using L by blast
    have "reloc_call T = MoveCtor" "reloc_ok T = ?ok"
      using True by (simp_all add: fun_eq_iff reloc_ok_def reloc_call_def)
    then have rl: "rollback_log MoveCtor ?ok xs = rollback_log (reloc_call T) (reloc_ok T) xs"
      by simp
    let ?tw = "takeWhile ?ok xs"
    let ?ys = "map (moved_from T) ?tw @ drop (length ?tw) xs"
    have len: "length ?tw \<le> length xs" by (rule length_takeWhile_le)
    have "take (length xs - length ?tw) (drop (i + length ?tw) A) = drop (length ?tw) (take (length xs) (drop i A))"
      by (simp add: drop_take add.commute)
    also have "\<dots> = map Obj (drop (length ?tw) xs)"
      by (simp only: assms(6) drop_map)
    finally have "splice i (map Obj (map (moved_from T) ?tw) @ map Obj (drop (length ?tw) xs)) A
        = splice i (map Obj (map (moved_from T) ?tw)) A"
      by (intro splice_append_same) simp
    then have "heap m' = (heap m)[a := Some (splice i (map Obj ?ys) A)]"
      using m'(2) by (simp add: comp_def)
    moreover have "length ?ys = length xs" using len by simp
    ultimately show ?thesis using nok r e m'(1,3,4) True rl
      by (auto intro!: exI[of _ ?ys])
  qed
next
  case False
  let ?ok = "\<lambda>x. \<not> may_throw T (CopyCtor x)"
  have r: "relocatable T xs = list_all ?ok xs"
    using False by (simp add: relocatable_def reloc_ok_def[abs_def] reloc_call_def)
  have e: "relocate_n T False (Some a, i) (length xs) (Some b, j) m
      = construct_n (construct_copy T) (Some a, i) (length xs) (Some b, j) m"
    using False by (simp add: relocate_n_def uses_move_def uninitialized_copy_n_def)
  note L = uninit_copy[OF assms, of T]
  have same: "splice i (map Obj xs) A = A"
    using assms(6) by (intro splice_same) simp
  have sa: "map (src_after T) xs = xs" using False by (induction xs) (simp_all add: src_after_def)
  have rc: "map (reloc_call T) xs = map CopyCtor xs" using False by (induction xs) (simp_all add: reloc_call_def)
  have upd: "\<And>X. (heap m)[b := X, a := Some A] = (heap m)[b := X]"
    using assms(1,2,4) by (intro list_update_same) simp
  have "reloc_call T = CopyCtor" "reloc_ok T = ?ok"
    using False by (simp_all add: fun_eq_iff reloc_ok_def reloc_call_def)
  then have rl: "rollback_log CopyCtor ?ok xs = rollback_log (reloc_call T) (reloc_ok T) xs"
    by simp
  show ?thesis
  proof (cases "list_all ?ok xs")
    case ok: True
    then show ?thesis using L r e
      by (simp add: sa rc same upd)
  next
    case nok: False
    then show ?thesis using L r e same assms(2,4) rl
      by (auto simp: list_update_same intro!: exI[of _ xs])
  qed
qed

lemma relocate_n_0 [simp]: "relocate_n T c src 0 dst m = (Ret (), m)"
  by (simp add: relocate_n_def uninitialized_move_n_def uninitialized_copy_n_def)

lemma machine_id [simp]: "m\<lparr>heap := heap m\<rparr> = m" "m\<lparr>log := log m\<rparr> = m"
  by simp_all

lemma replace_storage_ok:
  assumes "holds m this ys k"
  shows "replace_storage this nd m =
     (Ret (), this\<lparr>data_f := nd\<rparr>,
      m\<lparr>heap := free (buffer_f (data_f this)) (heap m), log := log m @ map Dtor ys\<rparr>)"
proof (cases "buffer_f (data_f this)")
  case None
  then show ?thesis using assms
    by (simp add: holds_def replace_storage_def GetAddress_def RawMemory_Swap_def
        RawMemory_dtor_def Deallocate_eq free_def RawMemory_eta)
next
  case (Some a)
  then have h: "a < length (heap m)" "heap m ! a = Some (map Obj ys @ replicate k Raw)"
    "size_f this = length ys"
    using assms by (simp_all add: holds_def)
  have "destroy_n (Some a, 0) (length ys) m =
     (Ret (), m\<lparr>heap := (heap m)[a := Some (splice 0 (replicate (length ys) Raw) (map Obj ys @ replicate k Raw))],
                 log := log m @ map Dtor ys\<rparr>)"
    using h by (intro destroy_n_live) simp_all
  then show ?thesis using Some h
    by (simp add: replace_storage_def GetAddress_def RawMemory_Swap_def
        RawMemory_dtor_def Deallocate_eq free_def RawMemory_eta)
qed

lemma Reserve_noop:
  "holds m v xs k \<Longrightarrow> n \<le> length xs + k \<Longrightarrow> Reserve T n v m = (Ret (), v, m)"
  by (simp add: Reserve_def holds_def RawMemory_Capacity_def)

lemma Reserve_bad_alloc:
  "holds m v xs k \<Longrightarrow> length xs + k < n \<Longrightarrow> new_fails m (length (heap m)) n \<Longrightarrow>
   Reserve T n v m = (Throw bad_alloc, v, m)"
  by (simp add: Reserve_def holds_def RawMemory_Capacity_def RawMemory_ctor_eq)

text \<open>The relocation of a whole vector into a block that starts with raw slots.\<close>

lemma relocate_all:
  assumes "holds m v xs k" "buffer_f (data_f v) = Some a"
    "b < length (heap m)" "a \<noteq> b" "heap m ! b = Some B" "length xs \<le> length B"
    "take (length xs) B = replicate (length xs) Raw"
  shows "(relocatable T xs \<longrightarrow>
            relocate_n T False (Some a, 0) (length xs) (Some b, 0) m =
              (Ret (), m\<lparr>heap := (heap m)[b := Some (map Obj xs @ drop (length xs) B),
                                           a := Some (map Obj (map (src_after T) xs) @ replicate k Raw)],
                          log := log m @ map (reloc_call T) xs\<rparr>))
       \<and> (\<not> relocatable T xs \<longrightarrow>
            (\<exists>m' ys. relocate_n T False (Some a, 0) (length xs) (Some b, 0) m = (Throw elem_exn, m') \<and>
                   length ys = length xs \<and>
                   heap m' = (heap m)[a := Some (map Obj ys @ replicate k Raw)] \<and>
                   new_fails m' = new_fails m \<and> (\<not> uses_move T \<longrightarrow> ys = xs) \<and>
                   log m' = log m @ rollback_log (reloc_call T) (reloc_ok T) xs))"
proof -
  let ?A = "map Obj xs @ replicate k Raw"
  have h: "a < length (heap m)" "heap m ! a = Some ?A"
    using assms(1,2) by (simp_all add: holds_def)
  have sp: "\<And>ys. length ys = length xs \<Longrightarrow> splice 0 (map Obj ys) ?A = map Obj ys @ replicate k Raw"
    by (simp add: splice_def)
  have sb: "splice 0 (map Obj xs) B = map Obj xs @ drop (length xs) B"
    by (simp add: splice_def)
  note L = relocate_n_cases[of a b m ?A B xs 0 0 T]
  have L': "(relocatable T xs \<longrightarrow>
            relocate_n T False (Some a, 0) (length xs) (Some b, 0) m =
              (Ret (), m\<lparr>heap := (heap m)[b := Some (splice 0 (map Obj xs) B),
                                           a := Some (splice 0 (map Obj (map (src_after T) xs)) ?A)],
                          log := log m @ map (reloc_call T) xs\<rparr>))
       \<and> (\<not> relocatable T xs \<longrightarrow>
            (\<exists>m' ys. relocate_n T False (Some a, 0) (length xs) (Some b, 0) m = (Throw elem_exn, m') \<and>
                   length ys = length xs \<and>
                   heap m' = (heap m)[a := Some (splice 0 (map Obj ys) ?A)] \<and>
                   new_fails m' = new_fails m \<and> (\<not> uses_move T \<longrightarrow> ys = xs) \<and>
                   log m' = log m @ rollback_log (reloc_call T) (reloc_ok T) xs))"
    using assms h by (intro L) simp_all
  show ?thesis
  proof (cases "relocatable T xs")
    case True
    then show ?thesis using L' sp[of "map (src_after T) xs"] sb by simp
  next
    case False
    then obtain m' ys where "relocate_n T False (Some a, 0) (length xs) (Some b, 0) m = (Throw elem_exn, m')"
       "length ys = length xs" "heap m' = (heap m)[a := Some (splice 0 (map Obj ys) ?A)]"
       "new_fails m' = new_fails m" "\<not> uses_move T \<longrightarrow> ys = xs"
       "log m' = log m @ rollback_log (reloc_call T) (reloc_ok T) xs"
      using L' by blast
    then show ?thesis using False sp[of ys] by (auto intro!: exI[of _ ys])
  qed
qed

lemma Reserve_ok:
  assumes "holds m v xs k" "length xs + k < n" "\<not> new_fails m (length (heap m)) n"
    "relocatable T xs"
  shows "Reserve T n v m =
     (Ret (), \<lparr>data_f = \<lparr>buffer_f = Some (length (heap m)), capacity_f = n\<rparr>, size_f = length xs\<rparr>,
      m\<lparr>heap := free (buffer_f (data_f v)) (heap m) @ [Some (map Obj xs @ replicate (n - length xs) Raw)],
        log := log m @ map (reloc_call T) xs @ map Dtor (map (src_after T) xs)\<rparr>)"
proof -
  let ?b = "length (heap m)"
  let ?nd = "\<lparr>buffer_f = Some ?b, capacity_f = n\<rparr>"
  let ?m1 = "m\<lparr>heap := heap m @ [Some (replicate n Raw)]\<rparr>"
  have c: "RawMemory_ctor n m = (Ret ?nd, ?m1)"
    using assms by (simp add: RawMemory_ctor_eq)
  have sz: "size_f v = length xs" "capacity_f (data_f v) = length xs + k"
    using assms(1) by (simp_all add: holds_def)
  show ?thesis
  proof (cases "buffer_f (data_f v)")
    case None
    then have e: "xs = []" "k = 0" using assms(1) by (simp_all add: holds_def)
    have h1: "holds ?m1 v [] 0" using None sz e by (simp add: holds_def)
    show ?thesis using c None sz e assms(2) replace_storage_ok[OF h1, of ?nd]
      by (simp add: Reserve_def RawMemory_Capacity_def GetAddress_def free_def)
  next
    case (Some a)
    then have h: "a < length (heap m)" "heap m ! a = Some (map Obj xs @ replicate k Raw)"
      using assms(1) by (simp_all add: holds_def)
    have h1: "holds ?m1 v xs k" using assms(1) Some h
      by (simp add: holds_def nth_append)
    let ?m2 = "?m1\<lparr>heap := (heap ?m1)[?b := Some (map Obj xs @ drop (length xs) (replicate n Raw)),
                                           a := Some (map Obj (map (src_after T) xs) @ replicate k Raw)],
                          log := log ?m1 @ map (reloc_call T) xs\<rparr>"
    have r: "relocate_n T False (Some a, 0) (length xs) (Some ?b, 0) ?m1 = (Ret (), ?m2)"
      using relocate_all[OF h1 Some, of ?b "replicate n Raw" T] h assms(2,4) by simp
    have h2: "holds ?m2 v (map (src_after T) xs) k"
      using assms(1) Some h by (simp add: holds_def nth_append)
    show ?thesis using c r Some sz assms(2) h replace_storage_ok[OF h2, of ?nd]
      by (simp add: Reserve_def RawMemory_Capacity_def GetAddress_def free_def
          list_update_append1)
  qed
qed

lemma Reserve_throw:
  assumes "holds m v xs k" "length xs + k < n" "\<not> new_fails m (length (heap m)) n"
    "\<not> relocatable T xs"
  shows "\<exists>m' ys. Reserve T n v m = (Throw elem_exn, v, m') \<and> length ys = length xs \<and>
           holds m' v ys k \<and> new_fails m' = new_fails m \<and>
           heap m' ! length (heap m) = None \<and> length (heap m') = Suc (length (heap m)) \<and>
           log m' = log m @ rollback_log (reloc_call T) (reloc_ok T) xs \<and>
           (\<not> uses_move T \<longrightarrow> ys = xs \<and> heap m' = heap m @ [None])"
proof -
  let ?b = "length (heap m)"
  let ?nd = "\<lparr>buffer_f = Some ?b, capacity_f = n\<rparr>"
  let ?m1 = "m\<lparr>heap := heap m @ [Some (replicate n Raw)]\<rparr>"
  have c: "RawMemory_ctor n m = (Ret ?nd, ?m1)"
    using assms by (simp add: RawMemory_ctor_eq)
  have sz: "size_f v = length xs" "capacity_f (data_f v) = length xs + k"
    using assms(1) by (simp_all add: holds_def)
  have "xs \<noteq> []" using assms(4) by (auto simp: relocatable_def)
  then obtain a where Some: "buffer_f (data_f v) = Some a"
    using assms(1) by (cases "buffer_f (data_f v)") (auto simp: holds_def)
  then have h: "a < length (heap m)" "heap m ! a = Some (map Obj xs @ replicate k Raw)"
    using assms(1) by (simp_all add: holds_def)
  have h1: "holds ?m1 v xs k" using assms(1) Some h
    by (simp add: holds_def nth_append)
  obtain m' ys where r: "relocate_n T False (Some a, 0) (length xs) (Some ?b, 0) ?m1 = (Throw elem_exn, m')"
      "length ys = length xs" "heap m' = (heap ?m1)[a := Some (map Obj ys @ replicate k Raw)]"
      "new_fails m' = new_fails ?m1" "\<not> uses_move T \<longrightarrow> ys = xs"
      "log m' = log ?m1 @ rollback_log (reloc_call T) (reloc_ok T) xs"
    using relocate_all[OF h1 Some, of ?b "replicate n Raw" T] h assms(2,4) by auto
  let ?m'' = "RawMemory_dtor ?nd m'"
  have "Reserve T n v m = (Throw elem_exn, v, ?m'')"
    using c r(1) sz assms(2) Some by (simp add: Reserve_def RawMemory_Capacity_def GetAddress_def)
  moreover have "holds ?m'' v ys k"
    using assms(1) Some h r(2,3) by (simp add: holds_def RawMemory_dtor_def Deallocate_eq free_def nth_append list_update_append1)
  moreover have "new_fails ?m'' = new_fails m"
    using r(4) by (simp add: RawMemory_dtor_def Deallocate_eq)
  moreover have "\<not> uses_move T \<longrightarrow> heap ?m'' = heap m @ [None]"
    using r(3,5) h by (simp add: RawMemory_dtor_def Deallocate_eq free_def list_update_append1 list_update_same)
  moreover have "heap ?m'' ! length (heap m) = None \<and> length (heap ?m'') = Suc (length (heap m))"
    using r(3) h by (simp add: RawMemory_dtor_def Deallocate_eq free_def)
  moreover have "log ?m'' = log m @ rollback_log (reloc_call T) (reloc_ok T) xs"
    using r(6) by (simp add: RawMemory_dtor_def Deallocate_eq)
  ultimately show ?thesis using r(2,5) by (auto intro!: exI[of _ ?m''] exI[of _ ys])
qed

lemma length_free [simp]: "length (free buf H) = length H"
  by (simp add: free_def split: option.splits)

lemma holds_frame:
  assumes "holds m v xs k" "new_fails m' = new_fails m \<or> True"
    "\<And>a. buffer_f (data_f v) = Some a \<Longrightarrow> a < length (heap m') \<and> heap m' ! a = heap m ! a"
  shows "holds m' v xs k"
  using assms by (auto simp: holds_def split: option.splits)

lemma construct_from_live:
  assumes "b < length (heap m)" "heap m ! b = Some B" "j < length B"
  shows "construct_from T (Some b, j) args m =
     (if may_throw T (init_call args) then (Throw elem_exn, m\<lparr>log := log m @ [init_call args]\<rparr>)
      else (Ret (), m\<lparr>heap := (heap m)[b := Some (B[j := Obj (init_value args)])],
                      log := log m @ [init_call args]\<rparr>))"
  using assms by (simp add: construct_from_def placement_new_live)

lemma PushBack_room:
  assumes "holds m v xs k" "0 < k"
  shows "PushBack T args v m =
     (if may_throw T (init_call args)
      then (Throw elem_exn, v, m\<lparr>log := log m @ [init_call args]\<rparr>)
      else (Ret (), v\<lparr>size_f := Suc (length xs)\<rparr>,
            m\<lparr>heap := (heap m)[the (buffer_f (data_f v)) :=
                        Some (map Obj (xs @ [init_value args]) @ replicate (k - 1) Raw)],
              log := log m @ [init_call args]\<rparr>))"
proof -
  obtain a where a: "buffer_f (data_f v) = Some a"
    using assms by (cases "buffer_f (data_f v)") (auto simp: holds_def)
  have h: "a < length (heap m)" "heap m ! a = Some (map Obj xs @ replicate k Raw)"
    "size_f v = length xs" "capacity_f (data_f v) = length xs + k"
    using assms(1) a by (simp_all add: holds_def)
  have up: "(map Obj xs @ replicate k Raw)[length xs := Obj (init_value args)]
       = map Obj (xs @ [init_value args]) @ replicate (k - 1) Raw"
    using assms(2) by (cases k) (simp_all add: list_update_append)
  have "construct_from T (Some a, length xs) args m =
     (if may_throw T (init_call args) then (Throw elem_exn, m\<lparr>log := log m @ [init_call args]\<rparr>)
      else (Ret (), m\<lparr>heap := (heap m)[a := Some ((map Obj xs @ replicate k Raw)[length xs := Obj (init_value args)])],
                      log := log m @ [init_call args]\<rparr>))"
    using h assms(2) by (intro construct_from_live) simp_all
  then show ?thesis using a h assms(2) up
    by (simp add: PushBack_def Capacity_def RawMemory_Capacity_def GetAddress_def ptr_add_def)
qed

lemma grown_pos: "n < grown n" "grown n \<noteq> 0"
  by (simp_all add: grown_def)

lemma PushBack_bad_alloc:
  assumes "holds m v xs 0" "new_fails m (length (heap m)) (grown (length xs))"
  shows "PushBack T args v m = (Throw bad_alloc, v, m)"
proof -
  have g: "(if size_f v = 0 then 1 else size_f v * 2) = grown (length xs)"
    using assms(1) by (simp add: grown_def holds_def)
  have c: "RawMemory_ctor (grown (length xs)) m = (Throw bad_alloc, m)"
    using assms(2) grown_pos by (simp add: RawMemory_ctor_eq)
  have f: "size_f v = Capacity v"
    using assms(1) by (simp add: holds_def Capacity_def RawMemory_Capacity_def)
  show ?thesis unfolding PushBack_def g by (simp add: f c)
qed

lemma PushBack_ctor_throws:
  assumes "holds m v xs 0" "\<not> new_fails m (length (heap m)) (grown (length xs))"
    "may_throw T (init_call args)"
  shows "PushBack T args v m =
     (Throw elem_exn, v, m\<lparr>heap := heap m @ [None], log := log m @ [init_call args]\<rparr>)"
proof -
  let ?c = "grown (length xs)"
  let ?b = "length (heap m)"
  let ?nd = "\<lparr>buffer_f = Some ?b, capacity_f = ?c\<rparr>"
  let ?m1 = "m\<lparr>heap := heap m @ [Some (replicate ?c Raw)]\<rparr>"
  have g: "(if size_f v = 0 then 1 else size_f v * 2) = ?c"
    using assms(1) by (simp add: grown_def holds_def)
  have c: "RawMemory_ctor ?c m = (Ret ?nd, ?m1)"
    using assms(2) grown_pos by (simp add: RawMemory_ctor_eq)
  have f: "size_f v = Capacity v" "size_f v = length xs"
    using assms(1) by (simp_all add: holds_def Capacity_def RawMemory_Capacity_def)
  have n: "construct_from T (ptr_add (GetAddress ?nd) (size_f v)) args ?m1 =
      (Throw elem_exn, ?m1\<lparr>log := log ?m1 @ [init_call args]\<rparr>)"
    using construct_from_live[of ?b ?m1 "replicate ?c Raw" "length xs" T args] assms(3) grown_pos f
    by (simp add: GetAddress_def ptr_add_def)
  show ?thesis unfolding PushBack_def g
    by (simp add: f(1)[symmetric] c n RawMemory_dtor_def Deallocate_eq free_def)
qed

lemma drop_replicate_update:
  "n < c \<Longrightarrow> drop n ((replicate c s)[n := t]) = t # replicate (c - Suc n) s"
proof -
  assume "n < c"
  then have "(replicate c s)[n := t] = replicate n s @ t # replicate (c - Suc n) s"
    by (simp add: list_eq_iff_nth_eq nth_append nth_list_update nth_Cons')
  then show ?thesis by simp
qed

lemma take_replicate_update:
  "n \<le> j \<Longrightarrow> take n ((replicate c s)[j := t]) = replicate (min n c) s"
  by (simp add: take_update_cancel min.commute)

lemma PushBack_grow_cases:
  assumes "holds m v xs 0" "\<not> new_fails m (length (heap m)) (grown (length xs))"
    "\<not> may_throw T (init_call args)"
  shows "(relocatable T xs \<longrightarrow>
           PushBack T args v m =
            (Ret (),
             \<lparr>data_f = \<lparr>buffer_f = Some (length (heap m)), capacity_f = grown (length xs)\<rparr>,
               size_f = Suc (length xs)\<rparr>,
             m\<lparr>heap := free (buffer_f (data_f v)) (heap m) @
                         [Some (map Obj (xs @ [init_value args]) @
                                replicate (grown (length xs) - Suc (length xs)) Raw)],
               log := log m @ [init_call args] @ map (reloc_call T) xs @
                        map Dtor (map (src_after T) xs)\<rparr>))
       \<and> (\<not> relocatable T xs \<longrightarrow>
           (\<exists>m' ys. PushBack T args v m = (Throw elem_exn, v, m') \<and> length ys = length xs \<and>
              holds m' v ys 0 \<and> new_fails m' = new_fails m \<and>
              heap m' ! length (heap m) = None \<and> length (heap m') = Suc (length (heap m)) \<and>
              log m' = log m @ [init_call args] @ rollback_log (reloc_call T) (reloc_ok T) xs \<and>
              (\<not> uses_move T \<longrightarrow> ys = xs \<and> heap m' = heap m @ [None])))"
proof -
  let ?c = "grown (length xs)"
  let ?b = "length (heap m)"
  let ?x = "init_value args"
  let ?nd = "\<lparr>buffer_f = Some ?b, capacity_f = ?c\<rparr>"
  let ?m1 = "m\<lparr>heap := heap m @ [Some (replicate ?c Raw)]\<rparr>"
  let ?B = "(replicate ?c Raw)[length xs := Obj ?x]"
  let ?m2 = "m\<lparr>heap := heap m @ [Some ?B], log := log m @ [init_call args]\<rparr>"
  have g: "(if size_f v = 0 then 1 else size_f v * 2) = ?c"
    using assms(1) by (simp add: grown_def holds_def)
  have c: "RawMemory_ctor ?c m = (Ret ?nd, ?m1)"
    using assms(2) grown_pos by (simp add: RawMemory_ctor_eq)
  have f: "size_f v = Capacity v" "size_f v = length xs"
    using assms(1) by (simp_all add: holds_def Capacity_def RawMemory_Capacity_def)
  have n: "construct_from T (ptr_add (GetAddress ?nd) (size_f v)) args ?m1 = (Ret (), ?m2)"
    using construct_from_live[of ?b ?m1 "replicate ?c Raw" "length xs" T args] assms(3) grown_pos f
    by (simp add: GetAddress_def ptr_add_def)
  have dB: "drop (length xs) ?B = Obj ?x # replicate (?c - Suc (length xs)) Raw"
    using grown_pos by (intro drop_replicate_update) simp
  show ?thesis
  proof (cases "buffer_f (data_f v)")
    case None
    then have e: "xs = []" using assms(1) by (simp add: holds_def)
    have h2: "holds ?m2 v [] 0" using None assms(1) e by (simp add: holds_def)
    have r: "relocatable T xs" using e by (simp add: relocatable_def)
    have r0: "relocate_n T False (GetAddress (data_f v)) (size_f v) (GetAddress ?nd) ?m2 = (Ret (), ?m2)"
      using e f by simp
    have cond: "(size_f v = Capacity v) = True" using f by simp
    have "PushBack T args v m =
            (Ret (),
             v\<lparr>data_f := ?nd\<rparr>\<lparr>size_f := size_f (v\<lparr>data_f := ?nd\<rparr>) + 1\<rparr>,
             ?m2\<lparr>heap := free (buffer_f (data_f v)) (heap ?m2), log := log ?m2 @ map Dtor []\<rparr>)"
      by (simp only: PushBack_def g cond if_True c prod.case outcome.case n r0
          replace_storage_ok[OF h2])
    then show ?thesis using r e None dB f
      by (simp add: free_def GetAddress_def ptr_add_def)
  next
    case (Some a)
    then have h: "a < length (heap m)" "heap m ! a = Some (map Obj xs @ replicate 0 Raw)"
      using assms(1) by (simp_all add: holds_def)
    have h2: "holds ?m2 v xs 0" using assms(1) Some h by (simp add: holds_def nth_append)
    have tB: "take (length xs) ?B = replicate (length xs) Raw"
      using grown_pos[of "length xs"] by (simp add: take_update_cancel min_def)
    note R = relocate_all[OF h2 Some, of ?b ?B T]
    have R': "(relocatable T xs \<longrightarrow>
            relocate_n T False (Some a, 0) (length xs) (Some ?b, 0) ?m2 =
              (Ret (), ?m2\<lparr>heap := (heap ?m2)[?b := Some (map Obj xs @ drop (length xs) ?B),
                                           a := Some (map Obj (map (src_after T) xs) @ replicate 0 Raw)],
                          log := log ?m2 @ map (reloc_call T) xs\<rparr>))
       \<and> (\<not> relocatable T xs \<longrightarrow>
            (\<exists>m' ys. relocate_n T False (Some a, 0) (length xs) (Some ?b, 0) ?m2 = (Throw elem_exn, m') \<and>
                   length ys = length xs \<and>
                   heap m' = (heap ?m2)[a := Some (map Obj ys @ replicate 0 Raw)] \<and>
                   new_fails m' = new_fails ?m2 \<and> (\<not> uses_move T \<longrightarrow> ys = xs) \<and>
                   log m' = log ?m2 @ rollback_log (reloc_call T) (reloc_ok T) xs))"
      using h tB grown_pos[of "length xs"] by (intro R) simp_all
    show ?thesis
    proof (cases "relocatable T xs")
      case True
      let ?m3 = "?m2\<lparr>heap := (heap ?m2)[?b := Some (map Obj xs @ drop (length xs) ?B),
                                           a := Some (map Obj (map (src_after T) xs) @ replicate 0 Raw)],
                          log := log ?m2 @ map (reloc_call T) xs\<rparr>"
      have r: "relocate_n T False (GetAddress (data_f v)) (size_f v) (GetAddress ?nd) ?m2 = (Ret (), ?m3)"
        using R' True Some f by (simp add: GetAddress_def)
      have h3: "holds ?m3 v (map (src_after T) xs) 0"
        using assms(1) Some h by (simp add: holds_def nth_append)
      have cond: "(size_f v = Capacity v) = True" using f by simp
      have "PushBack T args v m =
            (Ret (),
             v\<lparr>data_f := ?nd\<rparr>\<lparr>size_f := size_f (v\<lparr>data_f := ?nd\<rparr>) + 1\<rparr>,
             ?m3\<lparr>heap := free (buffer_f (data_f v)) (heap ?m3),
                  log := log ?m3 @ map Dtor (map (src_after T) xs)\<rparr>)"
        by (simp only: PushBack_def g cond if_True c prod.case outcome.case n r
            replace_storage_ok[OF h3])
      then show ?thesis using True Some h dB f
        by (simp add: free_def list_update_append1 GetAddress_def ptr_add_def)
    next
      case False
      then obtain m' ys where r: "relocate_n T False (Some a, 0) (length xs) (Some ?b, 0) ?m2 = (Throw elem_exn, m')"
          "length ys = length xs" "heap m' = (heap ?m2)[a := Some (map Obj ys @ replicate 0 Raw)]"
          "new_fails m' = new_fails ?m2" "\<not> uses_move T \<longrightarrow> ys = xs"
          "log m' = log ?m2 @ rollback_log (reloc_call T) (reloc_ok T) xs"
        using R' by blast
      let ?m'' = "RawMemory_dtor ?nd m'"
      have "relocate_n T False (GetAddress (data_f v)) (size_f v) (GetAddress ?nd) ?m2 = (Throw elem_exn, m')"
        using r(1) Some f by (simp add: GetAddress_def)
      moreover have cond: "(size_f v = Capacity v) = True" using f by simp
      ultimately have "PushBack T args v m = (Throw elem_exn, v, ?m'')"
        by (simp only: PushBack_def g cond if_True c prod.case outcome.case n)
      moreover have "holds ?m'' v ys 0"
        using assms(1) Some h r(2,3)
        by (simp add: holds_def RawMemory_dtor_def Deallocate_eq free_def nth_append list_update_append1)
      moreover have "new_fails ?m'' = new_fails m" "log ?m'' = log m @ [init_call args] @ rollback_log (reloc_call T) (reloc_ok T) xs"
        using r(4,6) by (simp_all add: RawMemory_dtor_def Deallocate_eq)
      moreover have "heap ?m'' ! length (heap m) = None \<and> length (heap ?m'') = Suc (length (heap m))"
        using r(3) h by (simp add: RawMemory_dtor_def Deallocate_eq free_def)
      moreover have "\<not> uses_move T \<longrightarrow> heap ?m'' = heap m @ [None]"
        using r(3,5) h by (simp add: RawMemory_dtor_def Deallocate_eq free_def list_update_append1 list_update_same)
      ultimately show ?thesis using False r(2,5)
        by (auto intro!: exI[of _ ?m''] exI[of _ ys])
    qed
  qed
qed

lemma EmplaceBack_room:
  assumes "holds m v xs k" "0 < k"
  shows "EmplaceBack T args v m =
     (if may_throw T (init_call args)
      then (Throw elem_exn, v, m\<lparr>log := log m @ [init_call args]\<rparr>)
      else (Ret (buffer_f (data_f v), length xs), v\<lparr>size_f := Suc (length xs)\<rparr>,
            m\<lparr>heap := (heap m)[the (buffer_f (data_f v)) :=
                        Some (map Obj (xs @ [init_value args]) @ replicate (k - 1) Raw)],
              log := log m @ [init_call args]\<rparr>))"
proof -
  have c: "capacity_f (data_f v) = length xs + k" using assms(1) by (simp add: holds_def)
  show ?thesis unfolding EmplaceBack_def PushBack_room[OF assms]
    using assms(2) c by (simp add: RawMemory_index_def)
qed

lemma EmplaceBack_bad_alloc:
  assumes "holds m v xs 0" "new_fails m (length (heap m)) (grown (length xs))"
  shows "EmplaceBack T args v m = (Throw bad_alloc, v, m)"
  unfolding EmplaceBack_def PushBack_bad_alloc[OF assms] by simp

lemma EmplaceBack_ctor_throws:
  assumes "holds m v xs 0" "\<not> new_fails m (length (heap m)) (grown (length xs))"
    "may_throw T (init_call args)"
  shows "EmplaceBack T args v m =
     (Throw elem_exn, v, m\<lparr>heap := heap m @ [None], log := log m @ [init_call args]\<rparr>)"
  unfolding EmplaceBack_def PushBack_ctor_throws[OF assms] by simp

lemma EmplaceBack_grow_cases:
  assumes "holds m v xs 0" "\<not> new_fails m (length (heap m)) (grown (length xs))"
    "\<not> may_throw T (init_call args)"
  shows "(relocatable T xs \<longrightarrow>
           EmplaceBack T args v m =
            (Ret (Some (length (heap m)), length xs),
             \<lparr>data_f = \<lparr>buffer_f = Some (length (heap m)), capacity_f = grown (length xs)\<rparr>,
               size_f = Suc (length xs)\<rparr>,
             m\<lparr>heap := free (buffer_f (data_f v)) (heap m) @
                         [Some (map Obj (xs @ [init_value args]) @
                                replicate (grown (length xs) - Suc (length xs)) Raw)],
               log := log m @ [init_call args] @ map (reloc_call T) xs @
                        map Dtor (map (src_after T) xs)\<rparr>))
       \<and> (\<not> relocatable T xs \<longrightarrow>
           (\<exists>m' ys. EmplaceBack T args v m = (Throw elem_exn, v, m') \<and> length ys = length xs \<and>
              holds m' v ys 0 \<and> new_fails m' = new_fails m \<and>
              heap m' ! length (heap m) = None \<and> length (heap m') = Suc (length (heap m)) \<and>
              log m' = log m @ [init_call args] @ rollback_log (reloc_call T) (reloc_ok T) xs \<and>
              (\<not> uses_move T \<longrightarrow> ys = xs \<and> heap m' = heap m @ [None])))"
proof (cases "relocatable T xs")
  case True
  then have "PushBack T args v m =
            (Ret (),
             \<lparr>data_f = \<lparr>buffer_f = Some (length (heap m)), capacity_f = grown (length xs)\<rparr>,
               size_f = Suc (length xs)\<rparr>,
             m\<lparr>heap := free (buffer_f (data_f v)) (heap m) @
                         [Some (map Obj (xs @ [init_value args]) @
                                replicate (grown (length xs) - Suc (length xs)) Raw)],
               log := log m @ [init_call args] @ map (reloc_call T) xs @
                        map Dtor (map (src_after T) xs)\<rparr>)"
    using PushBack_grow_cases[OF assms] by blast
  then show ?thesis unfolding EmplaceBack_def using True grown_pos(1)[of "length xs"]
    by (simp add: RawMemory_index_def)
next
  case False
  then obtain m' ys where r: "PushBack T args v m = (Throw elem_exn, v, m')" "length ys = length xs"
              "holds m' v ys 0" "new_fails m' = new_fails m"
              "heap m' ! length (heap m) = None" "length (heap m') = Suc (length (heap m))"
              "log m' = log m @ [init_call args] @ rollback_log (reloc_call T) (reloc_ok T) xs"
              "\<not> uses_move T \<longrightarrow> ys = xs \<and> heap m' = heap m @ [None]"
    using PushBack_grow_cases[OF assms] by blast
  have "EmplaceBack T args v m = (Throw elem_exn, v, m')" unfolding EmplaceBack_def r(1) by simp
  then show ?thesis using False r(2-8) by blast
qed

text \<open>
  On a vector that satisfies its invariant the assertion in \<^verbatim>\<open>EmplaceBack\<close> holds, so that
  \<^verbatim>\<open>PushBack\<close> is \<^verbatim>\<open>EmplaceBack\<close> with the result dropped.
\<close>

lemma PushBack_EmplaceBack:
  assumes "holds m v xs k"
  shows "PushBack T a v m =
     (case EmplaceBack T a v m of
        (Ret r, v1, m1) \<Rightarrow> (Ret (), v1, m1)
      | (Throw e, v1, m1) \<Rightarrow> (Throw e, v1, m1)
      | (UB, v1, m1) \<Rightarrow> (UB, v1, m1)
      | (Abort, v1, m1) \<Rightarrow> (Abort, v1, m1))"
proof (cases "0 < k")
  case True
  have c: "capacity_f (data_f v) = length xs + k" using assms by (simp add: holds_def)
  show ?thesis unfolding EmplaceBack_def PushBack_room[OF assms True]
    using True c by (simp add: RawMemory_index_def)
next
  case False
  then have h0: "holds m v xs 0" using assms by simp
  consider (bad) "new_fails m (length (heap m)) (grown (length xs))"
    | (ctor) "\<not> new_fails m (length (heap m)) (grown (length xs))" "may_throw T (init_call a)"
    | (ok) "\<not> new_fails m (length (heap m)) (grown (length xs))" "\<not> may_throw T (init_call a)"
        "relocatable T xs"
    | (throw) "\<not> new_fails m (length (heap m)) (grown (length xs))" "\<not> may_throw T (init_call a)"
        "\<not> relocatable T xs"
    by blast
  then show ?thesis
  proof cases
    case bad
    show ?thesis unfolding EmplaceBack_def PushBack_bad_alloc[OF h0 bad] by simp
  next
    case ctor
    show ?thesis unfolding EmplaceBack_def PushBack_ctor_throws[OF h0 ctor] by simp
  next
    case ok
    have "PushBack T a v m =
            (Ret (),
             \<lparr>data_f = \<lparr>buffer_f = Some (length (heap m)), capacity_f = grown (length xs)\<rparr>,
               size_f = Suc (length xs)\<rparr>,
             m\<lparr>heap := free (buffer_f (data_f v)) (heap m) @
                         [Some (map Obj (xs @ [init_value a]) @
                                replicate (grown (length xs) - Suc (length xs)) Raw)],
               log := log m @ [init_call a] @ map (reloc_call T) xs @
                        map Dtor (map (src_after T) xs)\<rparr>)"
      using PushBack_grow_cases[OF h0 ok(1,2)] ok(3) by blast
    then show ?thesis unfolding EmplaceBack_def using grown_pos(1)[of "length xs"]
      by (simp add: RawMemory_index_def)
  next
    case throw
    obtain m' where "PushBack T a v m = (Throw elem_exn, v, m')"
      using PushBack_grow_cases[OF h0 throw(1,2)] throw(3) by blast
    then show ?thesis unfolding EmplaceBack_def by simp
  qed
qed

lemma holds_buffer:
  "holds m v xs k \<Longrightarrow> 0 < length xs + k \<Longrightarrow>
   \<exists>a. buffer_f (data_f v) = Some a \<and> a < length (heap m) \<and>
       heap m ! a = Some (map Obj xs @ replicate k Raw)"
  by (cases "buffer_f (data_f v)") (auto simp: holds_def)

lemma holds_size: "holds m v xs k \<Longrightarrow> size_f v = length xs \<and> capacity_f (data_f v) = length xs + k"
  by (simp add: holds_def)

lemma destroy_tail:
  assumes "a < length (heap m)" "heap m ! a = Some (map Obj xs @ replicate k Raw)" "n \<le> length xs"
  shows "destroy_n (Some a, n) (length xs - n) m =
     (Ret (), m\<lparr>heap := (heap m)[a := Some (map Obj (take n xs) @ replicate (k + (length xs - n)) Raw)],
                 log := log m @ map Dtor (drop n xs)\<rparr>)"
proof -
  let ?A = "map Obj xs @ replicate k Raw"
  have "destroy_n (Some a, n) (length (drop n xs)) m =
     (Ret (), m\<lparr>heap := (heap m)[a := Some (splice n (replicate (length (drop n xs)) Raw) ?A)],
                 log := log m @ map Dtor (drop n xs)\<rparr>)"
    using assms by (intro destroy_n_live) (simp_all add: drop_map)
  moreover have "splice n (replicate (length (drop n xs)) Raw) ?A
      = map Obj (take n xs) @ replicate (k + (length xs - n)) Raw"
    using assms(3) by (simp add: splice_def take_map replicate_add[symmetric] add.commute)
  ultimately show ?thesis by simp
qed

lemma PopBack_ok:
  assumes "holds m v xs k" "xs \<noteq> []"
  shows "PopBack v m =
     (Ret (), v\<lparr>size_f := length xs - 1\<rparr>,
      m\<lparr>heap := (heap m)[the (buffer_f (data_f v)) :=
                   Some (map Obj (butlast xs) @ replicate (Suc k) Raw)],
        log := log m @ [Dtor (last xs)]\<rparr>)"
proof -
  obtain a where a: "buffer_f (data_f v) = Some a" "a < length (heap m)"
      "heap m ! a = Some (map Obj xs @ replicate k Raw)"
    using holds_buffer[OF assms(1)] assms(2) by auto
  have s: "size_f v = length xs" using assms(1) by (simp add: holds_def)
  have d: "destroy_n (Some a, length xs - 1) (length xs - (length xs - 1)) m =
     (Ret (), m\<lparr>heap := (heap m)[a := Some (map Obj (take (length xs - 1) xs) @ replicate (k + (length xs - (length xs - 1))) Raw)],
                 log := log m @ map Dtor (drop (length xs - 1) xs)\<rparr>)"
    using a by (intro destroy_tail) simp_all
  have l: "length xs - (length xs - 1) = 1" using assms(2) by (cases xs) simp_all
  have dl: "drop (length xs - 1) xs = [last xs]"
    using assms(2) by (cases xs rule: rev_cases) simp_all
  let ?m' = "m\<lparr>heap := (heap m)[a := Some (map Obj (butlast xs) @ replicate (Suc k) Raw)],
        log := log m @ [Dtor (last xs)]\<rparr>"
  have d1: "destroy_n (ptr_add (GetAddress (data_f v)) (size_f v - 1)) 1 m = (Ret (), ?m')"
    using d a(1) s by (simp only: l dl) (simp add: GetAddress_def ptr_add_def butlast_conv_take)
  have cond: "(size_f v = 0) = False" using s assms(2) by simp
  have "PopBack v m = (Ret (), v\<lparr>size_f := size_f v - 1\<rparr>, ?m')"
    by (simp only: PopBack_def cond if_False d1 prod.case outcome.case)
  then show ?thesis using a(1) s by simp
qed

lemma PopBack_empty: "holds m v [] k \<Longrightarrow> PopBack v m = (UB, v, m)"
  by (simp add: PopBack_def holds_def)

lemma Resize_same:
  "holds m v xs k \<Longrightarrow> Resize T (length xs) v m = (Ret (), v, m)"
  by (simp add: Resize_def holds_def)

lemma Resize_shrink:
  assumes "holds m v xs k" "n < length xs"
  shows "Resize T n v m =
     (Ret (), v\<lparr>size_f := n\<rparr>,
      m\<lparr>heap := (heap m)[the (buffer_f (data_f v)) :=
                   Some (map Obj (take n xs) @ replicate (k + (length xs - n)) Raw)],
        log := log m @ map Dtor (drop n xs)\<rparr>)"
proof -
  have "xs \<noteq> []" using assms(2) by auto
  then obtain a where a: "buffer_f (data_f v) = Some a" "a < length (heap m)"
      "heap m ! a = Some (map Obj xs @ replicate k Raw)"
    using holds_buffer[OF assms(1)] by auto
  have s: "size_f v = length xs" using assms(1) by (simp add: holds_def)
  have d: "destroy_n (Some a, n) (length xs - n) m =
     (Ret (), m\<lparr>heap := (heap m)[a := Some (map Obj (take n xs) @ replicate (k + (length xs - n)) Raw)],
                 log := log m @ map Dtor (drop n xs)\<rparr>)"
    using a assms(2) by (intro destroy_tail) simp_all
  show ?thesis using d a s assms(2)
    by (simp add: Resize_def GetAddress_def ptr_add_def)
qed

text \<open>Value-initialising the slots behind the elements.\<close>

lemma value_construct_tail:
  assumes "a < length (heap m)" "heap m ! a = Some (map Obj xs @ replicate k Raw)" "n \<le> k"
  shows "(n = 0 \<or> \<not> may_throw T ValueInit \<longrightarrow>
           uninitialized_value_construct_n T (Some a, length xs) n m =
            (Ret (), m\<lparr>heap := (heap m)[a := Some (map Obj (xs @ replicate n (default_value T)) @
                                                 replicate (k - n) Raw)],
                        log := log m @ replicate n ValueInit\<rparr>))
       \<and> (\<not> (n = 0 \<or> \<not> may_throw T ValueInit) \<longrightarrow>
           (\<exists>m'. uninitialized_value_construct_n T (Some a, length xs) n m = (Throw elem_exn, m') \<and>
                 heap m' = heap m \<and> new_fails m' = new_fails m))"
proof -
  let ?A = "map Obj xs @ replicate k Raw"
  have sp: "splice (length xs) (replicate n (Obj (default_value T))) ?A
      = map Obj (xs @ replicate n (default_value T)) @ replicate (k - n) Raw"
    using assms(3) by (simp add: splice_def)
  show ?thesis
    unfolding uninitialized_value_construct_n_def
    using uninit_value[of a m ?A "length xs" n T "length xs"] assms sp
    by simp
qed


lemma holds_heap_eq: "holds m v xs k \<Longrightarrow> heap m' = heap m \<Longrightarrow> holds m' v xs k"
  by (auto simp: holds_def split: option.splits)

lemma holds_Vector_eq:
  "holds m v xs k \<Longrightarrow> holds m \<lparr>data_f = data_f v, size_f = length xs\<rparr> xs k"
  by (simp add: holds_def)

lemma Resize_grow:
  assumes "holds m v xs k" "length xs < n"
  shows "\<exists>r v' m'. Resize T n v m = (r, v', m') \<and> new_fails m' = new_fails m \<and>
           (case r of
              Ret u \<Rightarrow> holds m' v' (xs @ replicate (n - length xs) (default_value T))
                         (max (length xs + k) n - n)
            | Throw e \<Rightarrow> (\<exists>ys k'. length ys = length xs \<and> holds m' v' ys k')
            | UB \<Rightarrow> False
            | Abort \<Rightarrow> False)"
proof -
  have s: "size_f v = length xs" "capacity_f (data_f v) = length xs + k"
    using assms(1) by (simp_all add: holds_def)
  have cond: "(size_f v < n) = True" using s assms(2) by simp
  show ?thesis
  proof (cases "n \<le> length xs + k")
    case True
    then have "0 < length xs + k" using assms(2) by simp
    then obtain a where a: "buffer_f (data_f v) = Some a" "a < length (heap m)"
        "heap m ! a = Some (map Obj xs @ replicate k Raw)"
      using holds_buffer[OF assms(1)] by auto
    have r: "Reserve T n v m = (Ret (), v, m)" using Reserve_noop[OF assms(1) True] .
    have p: "ptr_add (GetAddress (data_f v)) (size_f v) = (Some a, length xs)"
      using a s by (simp add: GetAddress_def ptr_add_def)
    have nk: "n - length xs \<le> k" using True by simp
    note V = value_construct_tail[OF a(2,3) nk, of T]
    show ?thesis
    proof (cases "may_throw T ValueInit")
      case False
      let ?m' = "m\<lparr>heap := (heap m)[a := Some (map Obj (xs @ replicate (n - length xs) (default_value T)) @
                                                 replicate (k - (n - length xs)) Raw)],
                        log := log m @ replicate (n - length xs) ValueInit\<rparr>"
      have v: "uninitialized_value_construct_n T (Some a, length xs) (n - size_f v) m = (Ret (), ?m')"
        using V False True s by simp
      have "Resize T n v m = (Ret (), v\<lparr>size_f := n\<rparr>, ?m')"
        by (simp only: Resize_def cond if_True r prod.case outcome.case p v)
      moreover have "holds ?m' (v\<lparr>size_f := n\<rparr>) (xs @ replicate (n - length xs) (default_value T))
                         (max (length xs + k) n - n)"
        using a s True assms(2) by (simp add: holds_def max_def)
      ultimately show ?thesis by simp
    next
      case T: True
      then obtain m' where v: "uninitialized_value_construct_n T (Some a, length xs) (n - size_f v) m = (Throw elem_exn, m')"
        "heap m' = heap m" "new_fails m' = new_fails m"
        using V True s assms(2) by auto
      have "Resize T n v m = (Throw elem_exn, v, m')"
        by (simp only: Resize_def cond if_True r prod.case outcome.case p v)
      moreover have "holds m' v xs k" using assms(1) v(2) by (rule holds_heap_eq)
      ultimately show ?thesis using v(3) by auto
    qed
  next
    case False
    then have big: "length xs + k < n" by simp
    show ?thesis
    proof (cases "new_fails m (length (heap m)) n")
      case True
      have r: "Reserve T n v m = (Throw bad_alloc, v, m)"
        using Reserve_bad_alloc[OF assms(1) big True] .
      have "Resize T n v m = (Throw bad_alloc, v, m)"
        by (simp only: Resize_def cond if_True r prod.case outcome.case)
      then show ?thesis using assms(1) by auto
    next
      case nf: False
      show ?thesis
      proof (cases "relocatable T xs")
        case False
        then obtain m' ys where r: "Reserve T n v m = (Throw elem_exn, v, m')" "length ys = length xs"
           "holds m' v ys k" "new_fails m' = new_fails m"
          using Reserve_throw[OF assms(1) big nf] by blast
        have "Resize T n v m = (Throw elem_exn, v, m')"
          by (simp only: Resize_def cond if_True r prod.case outcome.case)
        then show ?thesis using r by auto
      next
        case True
        let ?b = "length (heap m)"
        let ?v1 = "\<lparr>data_f = \<lparr>buffer_f = Some ?b, capacity_f = n\<rparr>, size_f = length xs\<rparr>"
        let ?m1 = "m\<lparr>heap := free (buffer_f (data_f v)) (heap m) @ [Some (map Obj xs @ replicate (n - length xs) Raw)],
                     log := log m @ map (reloc_call T) xs @ map Dtor (map (src_after T) xs)\<rparr>"
        have r: "Reserve T n v m = (Ret (), ?v1, ?m1)"
          using Reserve_ok[OF assms(1) big nf True] .
        have b: "?b < length (heap ?m1)" "heap ?m1 ! ?b = Some (map Obj xs @ replicate (n - length xs) Raw)"
          by (simp_all add: nth_append)
        have p: "ptr_add (GetAddress (data_f ?v1)) (size_f ?v1) = (Some ?b, length xs)"
          by (simp add: GetAddress_def ptr_add_def)
        have sz: "n - size_f ?v1 = n - length xs" by simp
        have nk: "n - length xs \<le> n - length xs" by simp
        note V = value_construct_tail[OF b nk, of T]
        show ?thesis
        proof (cases "may_throw T ValueInit")
          case False
          let ?m' = "?m1\<lparr>heap := (heap ?m1)[?b := Some (map Obj (xs @ replicate (n - length xs) (default_value T)) @
                                                 replicate ((n - length xs) - (n - length xs)) Raw)],
                        log := log ?m1 @ replicate (n - length xs) ValueInit\<rparr>"
          have v: "uninitialized_value_construct_n T (Some ?b, length xs) (n - length xs) ?m1 = (Ret (), ?m')"
            using V False by simp
          have "Resize T n v m = (Ret (), ?v1\<lparr>size_f := n\<rparr>, ?m')"
            by (simp only: Resize_def cond if_True r prod.case outcome.case p sz v)
          moreover have "holds ?m' (?v1\<lparr>size_f := n\<rparr>) (xs @ replicate (n - length xs) (default_value T))
                         (max (length xs + k) n - n)"
            using big assms(2) by (simp add: holds_def max_def)
          ultimately show ?thesis by simp
        next
          case T: True
          then obtain m' where v: "uninitialized_value_construct_n T (Some ?b, length xs) (n - length xs) ?m1 = (Throw elem_exn, m')"
            "heap m' = heap ?m1" "new_fails m' = new_fails ?m1"
            using V assms(2) by auto
          have "Resize T n v m = (Throw elem_exn, ?v1, m')"
            by (simp only: Resize_def cond if_True r prod.case outcome.case p sz v)
          moreover have "holds ?m1 ?v1 xs (n - length xs)"
            using assms(2) by (simp add: holds_def nth_append)
          then have "holds m' ?v1 xs (n - length xs)"
            using v(2) by (rule holds_heap_eq)
          ultimately show ?thesis using v(3) by auto
        qed
      qed
    qed
  qed
qed

lemma destroy_last:
  assumes "a < length (heap m)" "heap m ! a = Some (map Obj ys @ replicate k Raw)" "ys \<noteq> []"
  shows "destroy_n (Some a, length ys - 1) 1 m =
     (Ret (), m\<lparr>heap := (heap m)[a := Some (map Obj (butlast ys) @ replicate (Suc k) Raw)],
                 log := log m @ [Dtor (last ys)]\<rparr>)"
proof -
  have d: "destroy_n (Some a, length ys - 1) (length ys - (length ys - 1)) m =
     (Ret (), m\<lparr>heap := (heap m)[a := Some (map Obj (take (length ys - 1) ys) @
                        replicate (k + (length ys - (length ys - 1))) Raw)],
                 log := log m @ map Dtor (drop (length ys - 1) ys)\<rparr>)"
    using assms by (intro destroy_tail) simp_all
  have l: "length ys - (length ys - 1) = 1" using assms(3) by (cases ys) simp_all
  have dl: "drop (length ys - 1) ys = [last ys]"
    using assms(3) by (cases ys rule: rev_cases) simp_all
  show ?thesis using d by (simp only: l dl) (simp add: butlast_conv_take)
qed

lemma Erase_cases:
  assumes "holds m v xs k" "d < length xs" "pos = (buffer_f (data_f v), d)"
    "Suc d < length xs + k"
  shows "(list_all (\<lambda>x. \<not> may_throw T (MoveAssign x)) (drop (Suc d) xs) \<longrightarrow>
           Erase T pos v m =
            (Ret pos, v\<lparr>size_f := length xs - 1\<rparr>,
             m\<lparr>heap := (heap m)[the (buffer_f (data_f v)) :=
                          Some (map Obj (take d xs @ drop (Suc d) xs) @ replicate (Suc k) Raw)],
               log := log m @ map MoveAssign (drop (Suc d) xs) @
                        [Dtor (if Suc d = length xs then xs ! d else moved_from T (last xs))]\<rparr>))
       \<and> (\<not> list_all (\<lambda>x. \<not> may_throw T (MoveAssign x)) (drop (Suc d) xs) \<longrightarrow>
           (\<exists>m' zs. Erase T pos v m = (Throw elem_exn, v, m') \<and> length zs = length xs \<and>
                take d zs = take d xs \<and> length (heap m') = length (heap m) \<and>
                holds m' v zs k \<and> new_fails m' = new_fails m))"
proof -
  let ?ok = "\<lambda>x. \<not> may_throw T (MoveAssign x)"
  let ?A = "map Obj xs @ replicate k Raw"
  let ?xs' = "drop (Suc d) xs"
  let ?z = "if Suc d = length xs then xs ! d else moved_from T (last xs)"
  have "xs \<noteq> []" using assms(2) by auto
  then obtain a where a: "buffer_f (data_f v) = Some a" "a < length (heap m)" "heap m ! a = Some ?A"
    using holds_buffer[OF assms(1)] by auto
  have s: "size_f v = length xs" using assms(1) by (simp add: holds_def)
  have pd: "ptr_diff pos (Vector_begin v) = Some d"
    using assms(3) by (simp add: ptr_diff_def Vector_begin_def GetAddress_def)
  have n: "length ?xs' = length xs - Suc d" by simp
  have pd2: "ptr_diff (Vector_end v) (Some a, Suc d) = Some (length ?xs')"
    using assms(2) s a by (simp add: ptr_diff_def Vector_end_def GetAddress_def ptr_add_def)
  have c: "capacity_f (data_f v) = length xs + k" using assms(1) by (simp add: holds_def)
  have p1: "RawMemory_index (data_f v) (d + 1) = Some (Some a, Suc d)"
           "RawMemory_index (data_f v) d = Some (Some a, d)"
    using a c assms(4) by (simp_all add: RawMemory_index_def)
  have pre: "take (Suc (length ?xs')) (drop d ?A) = map Obj (xs ! d # ?xs')"
    using assms(2) by (simp add: Cons_nth_drop_Suc drop_map[symmetric] del: drop_map)
  note L = shift_left_loop[OF a(2,3) pre, of T]
  have z: "(if ?xs' = [] then xs ! d else moved_from T (last ?xs')) = ?z"
    using assms(2) by (auto simp: last_drop)
  have sp: "\<And>zs. length zs = Suc (length ?xs') \<Longrightarrow>
      splice d (map Obj zs) ?A = map Obj (take d xs @ zs) @ replicate k Raw"
    using assms(2) by (simp add: splice_def take_map)
  have cond: "(size_f v = 0) = False" using s assms(2) by auto
  have e1: "(fst (Vector_end v), snd (Vector_end v) - 1) = (Some a, length xs - 1)"
    using a s by (simp add: Vector_end_def GetAddress_def ptr_add_def)
  show ?thesis
  proof (cases "list_all ?ok ?xs'")
    case True
    let ?ys = "take d xs @ ?xs' @ [?z]"
    let ?m1 = "m\<lparr>heap := (heap m)[a := Some (map Obj ?ys @ replicate k Raw)],
                 log := log m @ map MoveAssign ?xs'\<rparr>"
    have mv: "std_move T (Some a, Suc d) (Vector_end v) (Some a, d) m = (Ret (), ?m1)"
      using L True z sp[of "?xs' @ [?z]"] pd2 p1
      by (simp add: std_move_def)
    have ly: "length ?ys = length xs" using assms(2) by simp
    have hm1: "a < length (heap ?m1)" "heap ?m1 ! a = Some (map Obj ?ys @ replicate k Raw)" "?ys \<noteq> []"
      using a by simp_all
    let ?m2 = "m\<lparr>heap := (heap m)[a := Some (map Obj (take d xs @ ?xs') @ replicate (Suc k) Raw)],
               log := log m @ map MoveAssign ?xs' @ [Dtor ?z]\<rparr>"
    have D: "destroy_n (Some a, length ?ys - 1) 1 ?m1 =
       (Ret (), ?m1\<lparr>heap := (heap ?m1)[a := Some (map Obj (butlast ?ys) @ replicate (Suc k) Raw)],
                 log := log ?m1 @ [Dtor (last ?ys)]\<rparr>)"
      using hm1 by (rule destroy_last)
    have eq1: "length ?ys - 1 = length xs - 1" using ly by simp
    have bl: "butlast ?ys = take d xs @ ?xs'" "last ?ys = ?z"
      by (simp_all add: butlast_append)
    have m2eq: "?m1\<lparr>heap := (heap ?m1)[a := Some (map Obj (butlast ?ys) @ replicate (Suc k) Raw)],
                 log := log ?m1 @ [Dtor (last ?ys)]\<rparr> = ?m2"
      by (simp only: bl) simp
    have d2: "destroy_n (Some a, length xs - 1) 1 ?m1 = (Ret (), ?m2)"
      using D by (simp only: eq1 m2eq)
    have "Erase T pos v m = (Ret pos, v\<lparr>size_f := size_f v - 1\<rparr>, ?m2)"
      by (simp only: Erase_def pd option.case p1 mv prod.case outcome.case cond if_False e1 d2)
    then show ?thesis using True a s by simp
  next
    case False
    then obtain m' zs where f: "assign_n (assign_move T) (Some a, Suc d) (length ?xs') (Some a, d) m =
                    (Throw elem_exn, m')" "length zs = Suc (length ?xs')"
                   "heap m' = (heap m)[a := Some (splice d (map Obj zs) ?A)]"
                   "new_fails m' = new_fails m"
      using L by blast
    have mv: "std_move T (Some a, Suc d) (Vector_end v) (Some a, d) m = (Throw elem_exn, m')"
      using f(1) pd2 p1 by (simp add: std_move_def)
    have "Erase T pos v m = (Throw elem_exn, v, m')"
      by (simp only: Erase_def pd option.case p1 mv prod.case outcome.case)
    moreover have "holds m' v (take d xs @ zs) k"
      using assms(1,2) a f(2,3) sp[OF f(2)] by (simp add: holds_def)
    moreover have "length (take d xs @ zs) = length xs" using f(2) assms(2) by simp
    moreover have "take d (take d xs @ zs) = take d xs" using assms(2) by simp
    moreover have "length (heap m') = length (heap m)" using f(3) by simp
    ultimately show ?thesis using False f(4) by blast
  qed
qed

lemma Erase_abort:
  assumes "holds m v xs k" "length xs + k \<le> Suc d" "pos = (buffer_f (data_f v), d)"
  shows "Erase T pos v m = (Abort, v, m)"
proof -
  have c: "capacity_f (data_f v) = length xs + k" using assms(1) by (simp add: holds_def)
  have pd: "ptr_diff pos (Vector_begin v) = Some d"
    using assms(3) by (simp add: ptr_diff_def Vector_begin_def GetAddress_def)
  have ix: "RawMemory_index (data_f v) (d + 1) = None"
    using c assms(2) by (simp add: RawMemory_index_def)
  show ?thesis
    by (simp only: Erase_def pd option.case ix)
qed

lemma Erase_out_of_range:
  assumes "holds m v xs k" "length xs \<le> d" "Suc d < length xs + k" "pos = (buffer_f (data_f v), d)"
  shows "Erase T pos v m = (UB, v, m)"
proof -
  have s: "size_f v = length xs" "capacity_f (data_f v) = length xs + k"
    using assms(1) by (simp_all add: holds_def)
  have pd: "ptr_diff pos (Vector_begin v) = Some d"
    using assms(4) by (simp add: ptr_diff_def Vector_begin_def GetAddress_def)
  have ix: "RawMemory_index (data_f v) (d + 1) = Some (buffer_f (data_f v), Suc d)"
      "RawMemory_index (data_f v) d = Some (buffer_f (data_f v), d)"
    using s assms(3) by (simp_all add: RawMemory_index_def)
  have mv: "std_move T (buffer_f (data_f v), Suc d) (Vector_end v) (buffer_f (data_f v), d) m = (UB, m)"
    using assms(2) s by (simp add: std_move_def ptr_diff_def Vector_end_def GetAddress_def ptr_add_def)
  show ?thesis
    by (simp only: Erase_def pd option.case ix mv prod.case outcome.case)
qed

lemma holds_slots: "holds m v xs k \<Longrightarrow> slots m v = map Obj xs @ replicate k Raw"
  by (auto simp: holds_def slots_def block_at_def split: option.splits)






lemma Vector_dtor_ok:
  assumes "holds m v xs k"
  shows "Vector_dtor v m =
     (Ret (), m\<lparr>heap := free (buffer_f (data_f v)) (heap m), log := log m @ map Dtor xs\<rparr>)"
proof -
  have "replace_storage v (data_f v) m =
     (Ret (), v\<lparr>data_f := data_f v\<rparr>,
      m\<lparr>heap := free (buffer_f (data_f v)) (heap m), log := log m @ map Dtor xs\<rparr>)"
    using assms by (rule replace_storage_ok)
  then show ?thesis
    by (auto simp: replace_storage_def Vector_dtor_def RawMemory_Swap_def RawMemory_eta
        split: prod.splits outcome.splits)
qed

lemma Vector_sized_zero:
  "Vector_sized T 0 m = (Ret \<lparr>data_f = \<lparr>buffer_f = None, capacity_f = 0\<rparr>, size_f = 0\<rparr>, m)"
  by (simp add: Vector_sized_def RawMemory_ctor_eq uninitialized_value_construct_n_def)

lemma Vector_sized_bad_alloc:
  "0 < n \<Longrightarrow> new_fails m (length (heap m)) n \<Longrightarrow> Vector_sized T n m = (Throw bad_alloc, m)"
  by (simp add: Vector_sized_def RawMemory_ctor_eq)

lemma Vector_sized_cases:
  assumes "0 < n" "\<not> new_fails m (length (heap m)) n"
  shows "(\<not> may_throw T ValueInit \<longrightarrow>
           Vector_sized T n m =
             (Ret \<lparr>data_f = \<lparr>buffer_f = Some (length (heap m)), capacity_f = n\<rparr>, size_f = n\<rparr>,
              m\<lparr>heap := heap m @ [Some (map Obj (replicate n (default_value T)))],
                log := log m @ replicate n ValueInit\<rparr>))
       \<and> (may_throw T ValueInit \<longrightarrow>
           (\<exists>m'. Vector_sized T n m = (Throw elem_exn, m') \<and> heap m' = heap m @ [None] \<and>
                 new_fails m' = new_fails m))"
proof -
  let ?b = "length (heap m)"
  let ?nd = "\<lparr>buffer_f = Some ?b, capacity_f = n\<rparr>"
  let ?m1 = "m\<lparr>heap := heap m @ [Some (replicate n Raw)]\<rparr>"
  have c: "RawMemory_ctor n m = (Ret ?nd, ?m1)"
    using assms by (simp add: RawMemory_ctor_eq)
  have b: "?b < length (heap ?m1)" "heap ?m1 ! ?b = Some (map Obj [] @ replicate n Raw)"
    by simp_all
  have nn: "n \<le> n" by simp
  note V = value_construct_tail[OF b nn, of T]
  have g: "GetAddress ?nd = (Some ?b, length ([]::'a list))" by (simp add: GetAddress_def)
  show ?thesis
  proof (cases "may_throw T ValueInit")
    case False
    let ?m2 = "?m1\<lparr>heap := (heap ?m1)[?b := Some (map Obj ([] @ replicate n (default_value T)) @
                                                 replicate (n - n) Raw)],
                        log := log ?m1 @ replicate n ValueInit\<rparr>"
    have v: "uninitialized_value_construct_n T (Some ?b, length ([]::'a list)) n ?m1 = (Ret (), ?m2)"
      using V False by simp
    have "Vector_sized T n m = (Ret \<lparr>data_f = ?nd, size_f = n\<rparr>, ?m2)"
      by (simp only: Vector_sized_def c prod.case outcome.case g v)
    then show ?thesis using False by simp
  next
    case True
    then obtain m' where v: "uninitialized_value_construct_n T (Some ?b, length ([]::'a list)) n ?m1 = (Throw elem_exn, m')"
       "heap m' = heap ?m1" "new_fails m' = new_fails ?m1"
      using V assms(1) by auto
    have "Vector_sized T n m = (Throw elem_exn, RawMemory_dtor ?nd m')"
      by (simp only: Vector_sized_def c prod.case outcome.case g v)
    then show ?thesis using True v(2,3)
      by (simp add: RawMemory_dtor_def Deallocate_eq free_def)
  qed
qed

lemma Vector_copy_empty:
  "holds m other [] k \<Longrightarrow>
   Vector_copy T other m = (Ret \<lparr>data_f = \<lparr>buffer_f = None, capacity_f = 0\<rparr>, size_f = 0\<rparr>, m)"
  by (simp add: Vector_copy_def holds_def RawMemory_ctor_eq relocate_n_const)

lemma Vector_copy_bad_alloc:
  "holds m other xs k \<Longrightarrow> xs \<noteq> [] \<Longrightarrow> new_fails m (length (heap m)) (length xs) \<Longrightarrow>
   Vector_copy T other m = (Throw bad_alloc, m)"
  by (simp add: Vector_copy_def holds_def RawMemory_ctor_eq)

lemma Vector_copy_cases:
  assumes "holds m other xs k" "xs \<noteq> []" "\<not> new_fails m (length (heap m)) (length xs)"
  shows "(list_all (copy_ok T) xs \<longrightarrow>
           Vector_copy T other m =
             (Ret \<lparr>data_f = \<lparr>buffer_f = Some (length (heap m)), capacity_f = length xs\<rparr>,
                   size_f = length xs\<rparr>,
              m\<lparr>heap := heap m @ [Some (map Obj xs)], log := log m @ map CopyCtor xs\<rparr>))
       \<and> (\<not> list_all (copy_ok T) xs \<longrightarrow>
           (\<exists>m'. Vector_copy T other m = (Throw elem_exn, m') \<and> heap m' = heap m @ [None] \<and>
                 new_fails m' = new_fails m \<and>
                 log m' = log m @ rollback_log CopyCtor (copy_ok T) xs))"
proof -
  let ?b = "length (heap m)"
  let ?nd = "\<lparr>buffer_f = Some ?b, capacity_f = length xs\<rparr>"
  let ?m1 = "m\<lparr>heap := heap m @ [Some (replicate (length xs) Raw)]\<rparr>"
  let ?A = "map Obj xs @ replicate k Raw"
  have s: "size_f other = length xs" using assms(1) by (simp add: holds_def)
  obtain a where a: "buffer_f (data_f other) = Some a" "a < length (heap m)" "heap m ! a = Some ?A"
    using holds_buffer[OF assms(1)] assms(2) by auto
  have c: "RawMemory_ctor (size_f other) m = (Ret ?nd, ?m1)"
    using assms s by (simp add: RawMemory_ctor_eq)
  have ok: "copy_ok T = (\<lambda>x. \<not> may_throw T (CopyCtor x))"
    by (simp add: fun_eq_iff copy_ok_def)
  have L: "(list_all (copy_ok T) xs \<longrightarrow>
            construct_n (construct_copy T) (Some a, 0) (length xs) (Some ?b, 0) ?m1 =
              (Ret (), ?m1\<lparr>heap := (heap ?m1)[?b := Some (splice 0 (map Obj xs) (replicate (length xs) Raw))],
                          log := log ?m1 @ map CopyCtor xs\<rparr>))
       \<and> (\<not> list_all (copy_ok T) xs \<longrightarrow>
            (\<exists>m'. construct_n (construct_copy T) (Some a, 0) (length xs) (Some ?b, 0) ?m1 =
                    (Throw elem_exn, m') \<and> heap m' = heap ?m1 \<and> new_fails m' = new_fails ?m1 \<and>
                   log m' = log ?m1 @ rollback_log CopyCtor (copy_ok T) xs))"
  proof -
    have 1: "a \<noteq> ?b" "a < length (heap ?m1)" "?b < length (heap ?m1)" using a by simp_all
    have 2: "heap ?m1 ! a = Some ?A" using a by (simp add: nth_append)
    have 3: "heap ?m1 ! ?b = Some (replicate (length xs) Raw)" by simp
    have 4: "take (length xs) (drop 0 ?A) = map Obj xs" by simp
    have 5: "0 + length xs \<le> length (replicate (length xs) (Raw::'a slot))" by simp
    have 6: "take (length xs) (drop 0 (replicate (length xs) (Raw::'a slot))) = replicate (length xs) Raw" by simp
    show ?thesis unfolding ok by (rule uninit_copy[OF 1 2 3 4 5 6])
  qed
  have r: "relocate_n T True (GetAddress (data_f other)) (size_f other) (GetAddress ?nd) ?m1
      = construct_n (construct_copy T) (Some a, 0) (length xs) (Some ?b, 0) ?m1"
    using a s by (simp add: relocate_n_const GetAddress_def)
  show ?thesis
  proof (cases "list_all (copy_ok T) xs")
    case True
    let ?m2 = "?m1\<lparr>heap := (heap ?m1)[?b := Some (splice 0 (map Obj xs) (replicate (length xs) Raw))],
                          log := log ?m1 @ map CopyCtor xs\<rparr>"
    have r2: "relocate_n T True (GetAddress (data_f other)) (size_f other) (GetAddress ?nd) ?m1 = (Ret (), ?m2)"
      using L True r by simp
    have "Vector_copy T other m = (Ret \<lparr>data_f = ?nd, size_f = size_f other\<rparr>, ?m2)"
      by (simp only: Vector_copy_def c prod.case outcome.case r2)
    then show ?thesis using True s by (simp add: splice_def)
  next
    case False
    then obtain m' where f: "construct_n (construct_copy T) (Some a, 0) (length xs) (Some ?b, 0) ?m1 =
                    (Throw elem_exn, m')" "heap m' = heap ?m1" "new_fails m' = new_fails ?m1"
                   "log m' = log ?m1 @ rollback_log CopyCtor (copy_ok T) xs"
      using L by blast
    have r2: "relocate_n T True (GetAddress (data_f other)) (size_f other) (GetAddress ?nd) ?m1 = (Throw elem_exn, m')"
      using f(1) r by simp
    have "Vector_copy T other m = (Throw elem_exn, RawMemory_dtor ?nd m')"
      by (simp only: Vector_copy_def c prod.case outcome.case r2)
    then show ?thesis using False f(2,3,4)
      by (simp add: RawMemory_dtor_def Deallocate_eq free_def)
  qed
qed

lemma splice_0_prefix:
  "length zs \<le> length xs \<Longrightarrow>
   splice 0 (map Obj zs) (map Obj xs @ replicate k Raw) = map Obj (zs @ drop (length zs) xs) @ replicate k Raw"
  by (simp add: splice_def drop_map)

lemma assign_prefix:
  assumes "holds m this xs k" "holds m rhs ys l" "separate this rhs"
    "n \<le> length xs" "n \<le> length ys"
  shows "\<exists>r m'. assign_n (assign_copy T) (buffer_f (data_f rhs), 0) n (buffer_f (data_f this), 0) m = (r, m') \<and>
           new_fails m' = new_fails m \<and> holds m' rhs ys l \<and>
           (list_all (assign_ok T) (take n ys) \<longrightarrow>
              r = Ret () \<and> holds m' this (take n ys @ drop n xs) k \<and>
              log m' = log m @ map CopyAssign (take n ys)) \<and>
           (\<not> list_all (assign_ok T) (take n ys) \<longrightarrow>
              r = Throw elem_exn \<and> (\<exists>zs. length zs = length xs \<and> holds m' this zs k))"
proof (cases "n = 0")
  case True
  then show ?thesis using assms(1,2) by simp
next
  case False
  then have ne: "xs \<noteq> []" "ys \<noteq> []" using assms(4,5) by auto
  let ?At = "map Obj xs @ replicate k Raw"
  let ?Ar = "map Obj ys @ replicate l Raw"
  obtain t where t: "buffer_f (data_f this) = Some t" "t < length (heap m)" "heap m ! t = Some ?At"
    using holds_buffer[OF assms(1)] ne by auto
  obtain a where a: "buffer_f (data_f rhs) = Some a" "a < length (heap m)" "heap m ! a = Some ?Ar"
    using holds_buffer[OF assms(2)] ne by auto
  have sep: "a \<noteq> t" using assms(3) t a by (auto simp: separate_def)
  let ?src = "take n ys"
  have ln: "length ?src = n" using assms(5) by simp
  have ok: "assign_ok T = (\<lambda>x. \<not> may_throw T (CopyAssign x))"
    by (simp add: fun_eq_iff assign_ok_def)
  have 4: "take (length ?src) (drop 0 ?Ar) = map Obj ?src" using assms(5) by (simp add: take_map)
  have 5: "take (length ?src) (drop 0 ?At) = map Obj (take n xs)" using assms(4,5) by (simp add: take_map)
  have 6: "length (take n xs) = length ?src" using assms(4,5) by simp
  note L = std_copy_loop[OF sep a(2) t(2) a(3) t(3) 4 5 6, of T, folded ok, unfolded ln]
  have sp: "\<And>zs. length zs \<le> length xs \<Longrightarrow>
      splice 0 (map Obj zs) ?At = map Obj (zs @ drop (length zs) xs) @ replicate k Raw"
    by (rule splice_0_prefix)
  show ?thesis
  proof (cases "list_all (assign_ok T) ?src")
    case True
    let ?m' = "m\<lparr>heap := (heap m)[t := Some (splice 0 (map Obj ?src) ?At)],
                          log := log m @ map CopyAssign ?src\<rparr>"
    have r: "assign_n (assign_copy T) (Some a, 0) n (Some t, 0) m = (Ret (), ?m')"
      using L True by simp
    have "holds ?m' this (?src @ drop n xs) k"
      using assms(1,4,5) t sp[of ?src] by (simp add: holds_def)
    moreover have "holds ?m' rhs ys l"
      using assms(2) a sep by (simp add: holds_def)
    ultimately show ?thesis using r True t a by simp
  next
    case False
    let ?tw = "takeWhile (assign_ok T) ?src"
    obtain m' where f: "assign_n (assign_copy T) (Some a, 0) n (Some t, 0) m = (Throw elem_exn, m')"
        "heap m' = (heap m)[t := Some (splice 0 (map Obj ?tw) ?At)]" "new_fails m' = new_fails m"
      using L False by blast
    have lt: "length ?tw \<le> length xs"
      using length_takeWhile_le[of "assign_ok T" ?src] assms(4) ln by simp
    have "holds m' this (?tw @ drop (length ?tw) xs) k"
      using assms(1) t f(2) sp[OF lt] lt by (simp add: holds_def)
    moreover have "length (?tw @ drop (length ?tw) xs) = length xs" using lt by simp
    ultimately have ex: "\<exists>zs. length zs = length xs \<and> holds m' this zs k" by blast
    have "holds m' rhs ys l"
      using assms(2) a sep f(2) by (simp add: holds_def)
    then show ?thesis using ex f(1,3) False t a by simp
  qed
qed

lemma construct_tail:
  assumes "holds m this xs k" "holds m rhs ys l" "separate this rhs"
    "length xs \<le> length ys" "length ys \<le> length xs + k"
  shows "\<exists>r m'. uninitialized_copy_n T (buffer_f (data_f rhs), length xs) (length ys - length xs)
                    (buffer_f (data_f this), length xs) m = (r, m') \<and>
           new_fails m' = new_fails m \<and> holds m' rhs ys l \<and>
           (list_all (copy_ok T) (drop (length xs) ys) \<longrightarrow>
              r = Ret () \<and>
              holds m' (this\<lparr>size_f := length ys\<rparr>) (xs @ drop (length xs) ys)
                 (length xs + k - length ys) \<and>
              log m' = log m @ map CopyCtor (drop (length xs) ys)) \<and>
           (\<not> list_all (copy_ok T) (drop (length xs) ys) \<longrightarrow>
              r = Throw elem_exn \<and> holds m' this xs k)"
proof (cases "length ys = length xs")
  case True
  have "holds m (this\<lparr>size_f := length ys\<rparr>) xs k"
    using assms(1) True by (simp add: holds_def)
  then show ?thesis using assms(1,2) True by (simp add: uninitialized_copy_n_def)
next
  case False
  then have lt: "length xs < length ys" using assms(4) by simp
  then have ne: "ys \<noteq> []" "0 < length xs + k" using assms(5) by auto
  let ?At = "map Obj xs @ replicate k Raw"
  let ?Ar = "map Obj ys @ replicate l Raw"
  let ?src = "drop (length xs) ys"
  obtain t where t: "buffer_f (data_f this) = Some t" "t < length (heap m)" "heap m ! t = Some ?At"
    using holds_buffer[OF assms(1) ne(2)] by auto
  obtain a where a: "buffer_f (data_f rhs) = Some a" "a < length (heap m)" "heap m ! a = Some ?Ar"
    using holds_buffer[OF assms(2)] ne by auto
  have sep: "a \<noteq> t" using assms(3) t a by (auto simp: separate_def)
  have ln: "length ?src = length ys - length xs" by simp
  have ok: "copy_ok T = (\<lambda>x. \<not> may_throw T (CopyCtor x))"
    by (simp add: fun_eq_iff copy_ok_def)
  have 4: "take (length ?src) (drop (length xs) ?Ar) = map Obj ?src"
    using lt by (simp add: drop_map)
  have 5: "length xs + length ?src \<le> length ?At" using assms(5) lt by simp
  have 6: "take (length ?src) (drop (length xs) ?At) = replicate (length ?src) Raw"
    using assms(5) lt by simp
  note L = uninit_copy[OF sep a(2) t(2) a(3) t(3) 4 5 6, of T, folded ok, unfolded ln]
  have sp: "splice (length xs) (map Obj ?src) ?At = map Obj (xs @ ?src) @ replicate (length xs + k - length ys) Raw"
    using assms(5) lt by (simp add: splice_def)
  show ?thesis
  proof (cases "list_all (copy_ok T) ?src")
    case True
    let ?m' = "m\<lparr>heap := (heap m)[t := Some (splice (length xs) (map Obj ?src) ?At)],
                          log := log m @ map CopyCtor ?src\<rparr>"
    have r: "construct_n (construct_copy T) (Some a, length xs) (length ys - length xs) (Some t, length xs) m = (Ret (), ?m')"
      using L True by simp
    have "holds ?m' (this\<lparr>size_f := length ys\<rparr>) (xs @ ?src) (length xs + k - length ys)"
      using assms(1,5) lt t sp by (simp add: holds_def)
    moreover have "holds ?m' rhs ys l"
      using assms(2) a sep by (simp add: holds_def)
    ultimately show ?thesis using r True t a by (simp add: uninitialized_copy_n_def)
  next
    case False
    obtain m' where f: "construct_n (construct_copy T) (Some a, length xs) (length ys - length xs) (Some t, length xs) m = (Throw elem_exn, m')"
        "heap m' = heap m" "new_fails m' = new_fails m"
      using L False by blast
    have "holds m' this xs k" "holds m' rhs ys l"
      using assms(1,2) f(2) by (auto intro: holds_heap_eq)
    then show ?thesis using f(1,3) False t a by (simp add: uninitialized_copy_n_def)
  qed
qed

lemma holds_append_block:
  "holds m v xs k \<Longrightarrow> heap m' = heap m @ B \<Longrightarrow> holds m' v xs k"
  by (auto simp: holds_def nth_append split: option.splits)

lemma holds_free_other:
  "holds m v xs k \<Longrightarrow> heap m' = free buf (heap m) \<Longrightarrow>
   buf = None \<or> buf \<noteq> buffer_f (data_f v) \<Longrightarrow> holds m' v xs k"
  by (auto simp: holds_def free_def split: option.splits)

lemma Vector_assign_rebuild:
  assumes "holds m this xs k" "holds m rhs ys l" "separate this rhs" "length xs + k < length ys"
  shows "\<exists>r this' m'. Vector_assign T (Other rhs) this m = (r, this', m') \<and>
           new_fails m' = new_fails m \<and> holds m' rhs ys l \<and>
           (case r of
              Ret u \<Rightarrow> holds m' this' ys 0 \<and> log m' = log m @ map CopyCtor ys @ map Dtor xs
            | Throw e \<Rightarrow> this' = this \<and> holds m' this xs k
            | UB \<Rightarrow> False
            | Abort \<Rightarrow> False) \<and>
           (\<not> new_fails m (length (heap m)) (length ys) \<and> list_all (copy_ok T) ys \<longrightarrow> r = Ret ())"
proof -
  have ne: "ys \<noteq> []" using assms(4) by auto
  have cond: "(RawMemory_Capacity (data_f this) < size_f rhs) = True"
    using assms(1,2,4) by (simp add: holds_def RawMemory_Capacity_def)
  show ?thesis
  proof (cases "new_fails m (length (heap m)) (length ys)")
    case True
    have c: "Vector_copy T rhs m = (Throw bad_alloc, m)"
      using Vector_copy_bad_alloc[OF assms(2) ne True] .
    have "Vector_assign T (Other rhs) this m = (Throw bad_alloc, this, m)"
      by (simp only: Vector_assign_def reference.case cond if_True c prod.case outcome.case)
    then show ?thesis using assms(1,2) True by simp
  next
    case nf: False
    note C = Vector_copy_cases[OF assms(2) ne nf, of T]
    show ?thesis
    proof (cases "list_all (copy_ok T) ys")
      case False
      then obtain m' where c: "Vector_copy T rhs m = (Throw elem_exn, m')" "heap m' = heap m @ [None]"
          "new_fails m' = new_fails m"
        using C by blast
      have "Vector_assign T (Other rhs) this m = (Throw elem_exn, this, m')"
        by (simp only: Vector_assign_def reference.case cond if_True c prod.case outcome.case)
      moreover have "holds m' this xs k" "holds m' rhs ys l"
        using assms(1,2) c(2) by (auto intro: holds_append_block)
      ultimately show ?thesis using c(3) False by simp
    next
      case True
      let ?b = "length (heap m)"
      let ?cp = "\<lparr>data_f = \<lparr>buffer_f = Some ?b, capacity_f = length ys\<rparr>, size_f = length ys\<rparr>"
      let ?m1 = "m\<lparr>heap := heap m @ [Some (map Obj ys)], log := log m @ map CopyCtor ys\<rparr>"
      have c: "Vector_copy T rhs m = (Ret ?cp, ?m1)" using C True by simp
      let ?this1 = "\<lparr>data_f = data_f ?cp, size_f = size_f ?cp\<rparr>"
      let ?old = "\<lparr>data_f = data_f this, size_f = size_f this\<rparr>"
      have sw: "Vector_Swap this ?cp = (?this1, ?old)"
        by (simp add: Vector_Swap_def RawMemory_Swap_def RawMemory_eta)
      have h1: "holds ?m1 ?old xs k"
        using assms(1) by (auto simp: holds_def nth_append split: option.splits)
      let ?m2 = "?m1\<lparr>heap := free (buffer_f (data_f ?old)) (heap ?m1), log := log ?m1 @ map Dtor xs\<rparr>"
      have d: "Vector_dtor ?old ?m1 = (Ret (), ?m2)" using Vector_dtor_ok[OF h1] .
      have "Vector_assign T (Other rhs) this m = (Ret (), ?this1\<lparr>size_f := size_f rhs\<rparr>, ?m2)"
        by (simp only: Vector_assign_def reference.case cond if_True c prod.case outcome.case sw d)
      moreover have "holds ?m2 (?this1\<lparr>size_f := size_f rhs\<rparr>) ys 0"
        using assms(1,2) ne
        by (auto simp: holds_def free_def nth_append split: option.splits)
      moreover have hr1: "holds ?m1 rhs ys l"
        using assms(2) by (rule holds_append_block) simp
      have "holds ?m2 rhs ys l"
        by (rule holds_free_other[OF hr1]) (use assms(3) in \<open>auto simp: separate_def\<close>)
      ultimately show ?thesis by simp
    qed
  qed
qed

lemma holds_update_other:
  "holds m w ys l \<Longrightarrow> heap m' = (heap m)[t := X] \<Longrightarrow> buffer_f (data_f w) \<noteq> Some t \<Longrightarrow>
   holds m' w ys l"
  by (auto simp: holds_def split: option.splits)

lemma Vector_assign_grow_inplace:
  assumes "holds m this xs k" "holds m rhs ys l" "separate this rhs"
    "length xs \<le> length ys" "length ys \<le> length xs + k"
  shows "\<exists>r this' m'. Vector_assign T (Other rhs) this m = (r, this', m') \<and>
           new_fails m' = new_fails m \<and> holds m' rhs ys l \<and>
           (case r of
              Ret u \<Rightarrow> holds m' this' ys (length xs + k - length ys) \<and>
                 log m' = log m @ map CopyAssign (take (length xs) ys) @ map CopyCtor (drop (length xs) ys)
            | Throw e \<Rightarrow> this' = this \<and> (\<exists>zs. length zs = length xs \<and> holds m' this zs k)
            | UB \<Rightarrow> False
            | Abort \<Rightarrow> False) \<and>
           (list_all (assign_ok T) (take (length xs) ys) \<and> list_all (copy_ok T) (drop (length xs) ys)
              \<longrightarrow> r = Ret ())"
proof -
  have s: "size_f this = length xs" "size_f rhs = length ys"
    "capacity_f (data_f this) = length xs + k"
    using assms(1,2) by (simp_all add: holds_def)
  have cond: "(RawMemory_Capacity (data_f this) < size_f rhs) = False"
     "(size_f this \<le> size_f rhs) = True"
    using s assms(4,5) by (simp_all add: RawMemory_Capacity_def)
  have sc: "std_copy T (GetAddress (data_f rhs)) (ptr_add (GetAddress (data_f rhs)) (size_f this))
               (GetAddress (data_f this)) m
     = assign_n (assign_copy T) (buffer_f (data_f rhs), 0) (length xs) (buffer_f (data_f this), 0) m"
    using s by (simp add: std_copy_def ptr_diff_def GetAddress_def ptr_add_def)
  have pp: "ptr_add (GetAddress (data_f rhs)) (size_f this) = (buffer_f (data_f rhs), length xs)"
    "ptr_add (GetAddress (data_f this)) (size_f this) = (buffer_f (data_f this), length xs)"
    "size_f rhs - size_f this = length ys - length xs"
    using s by (simp_all add: GetAddress_def ptr_add_def)
  have sc2: "std_copy T (GetAddress (data_f rhs)) (buffer_f (data_f rhs), length xs)
               (GetAddress (data_f this)) m
     = assign_n (assign_copy T) (buffer_f (data_f rhs), 0) (length xs) (buffer_f (data_f this), 0) m"
    using sc by (simp only: pp)
  obtain r1 m1 where 1: "assign_n (assign_copy T) (buffer_f (data_f rhs), 0) (length xs) (buffer_f (data_f this), 0) m = (r1, m1)"
      "new_fails m1 = new_fails m" "holds m1 rhs ys l"
      "list_all (assign_ok T) (take (length xs) ys) \<longrightarrow>
              r1 = Ret () \<and> holds m1 this (take (length xs) ys @ drop (length xs) xs) k \<and>
              log m1 = log m @ map CopyAssign (take (length xs) ys)"
      "\<not> list_all (assign_ok T) (take (length xs) ys) \<longrightarrow>
              r1 = Throw elem_exn \<and> (\<exists>zs. length zs = length xs \<and> holds m1 this zs k)"
    using assign_prefix[OF assms(1,2,3) _ assms(4), of T] by auto
  show ?thesis
  proof (cases "list_all (assign_ok T) (take (length xs) ys)")
    case False
    then have r1: "r1 = Throw elem_exn" and z: "\<exists>zs. length zs = length xs \<and> holds m1 this zs k"
      using 1(5) by auto
    have "Vector_assign T (Other rhs) this m = (Throw elem_exn, this, m1)"
      using 1(1) r1
      by (simp only: Vector_assign_def reference.case cond if_True if_False sc prod.case outcome.case)
    then show ?thesis using 1(2,3) z False by simp
  next
    case True
    let ?xs1 = "take (length xs) ys"
    have r1: "r1 = Ret ()" and h1: "holds m1 this ?xs1 k"
      and l1: "log m1 = log m @ map CopyAssign ?xs1"
      using 1(4) True by auto
    have len1: "length ?xs1 = length xs" using assms(4) by simp
    obtain r2 m2 where 2: "uninitialized_copy_n T (buffer_f (data_f rhs), length xs) (length ys - length xs)
                    (buffer_f (data_f this), length xs) m1 = (r2, m2)"
        "new_fails m2 = new_fails m1" "holds m2 rhs ys l"
        "list_all (copy_ok T) (drop (length xs) ys) \<longrightarrow>
              r2 = Ret () \<and>
              holds m2 (this\<lparr>size_f := length ys\<rparr>) (?xs1 @ drop (length xs) ys)
                 (length xs + k - length ys) \<and>
              log m2 = log m1 @ map CopyCtor (drop (length xs) ys)"
        "\<not> list_all (copy_ok T) (drop (length xs) ys) \<longrightarrow> r2 = Throw elem_exn \<and> holds m2 this ?xs1 k"
      using construct_tail[OF h1 1(3) assms(3), of T] assms(4,5) len1 by auto
    show ?thesis
    proof (cases "list_all (copy_ok T) (drop (length xs) ys)")
      case False
      then have r2: "r2 = Throw elem_exn" and h2: "holds m2 this ?xs1 k" using 2(5) by auto
      have "Vector_assign T (Other rhs) this m = (Throw elem_exn, this, m2)"
        using 1(1) 2(1) r1 r2
        by (simp only: Vector_assign_def reference.case cond if_True if_False sc sc2 pp prod.case outcome.case)
      moreover have "\<exists>zs. length zs = length xs \<and> holds m2 this zs k"
        using h2 len1 by blast
      ultimately show ?thesis using 1(2) 2(2,3) False by simp
    next
      case T2: True
      then have r2: "r2 = Ret ()"
        and h2: "holds m2 (this\<lparr>size_f := length ys\<rparr>) (?xs1 @ drop (length xs) ys) (length xs + k - length ys)"
        and l2: "log m2 = log m1 @ map CopyCtor (drop (length xs) ys)"
        using 2(4) by auto
      have "Vector_assign T (Other rhs) this m = (Ret (), this\<lparr>size_f := size_f rhs\<rparr>, m2)"
        using 1(1) 2(1) r1 r2
        by (simp only: Vector_assign_def reference.case cond if_True if_False sc sc2 pp prod.case outcome.case)
      then show ?thesis using 1(2) 2(2,3) h2 l1 l2 s by simp
    qed
  qed
qed

lemma Vector_assign_shrink:
  assumes "holds m this xs k" "holds m rhs ys l" "separate this rhs" "length ys < length xs"
  shows "\<exists>r this' m'. Vector_assign T (Other rhs) this m = (r, this', m') \<and>
           new_fails m' = new_fails m \<and> holds m' rhs ys l \<and>
           (case r of
              Ret u \<Rightarrow> holds m' this' ys (length xs + k - length ys) \<and>
                 log m' = log m @ map CopyAssign ys @ map Dtor (drop (length ys) xs)
            | Throw e \<Rightarrow> this' = this \<and> (\<exists>zs. length zs = length xs \<and> holds m' this zs k)
            | UB \<Rightarrow> False
            | Abort \<Rightarrow> False) \<and>
           (list_all (assign_ok T) ys \<longrightarrow> r = Ret ())"
proof -
  have s: "size_f this = length xs" "size_f rhs = length ys"
    "capacity_f (data_f this) = length xs + k"
    using assms(1,2) by (simp_all add: holds_def)
  have cond: "(RawMemory_Capacity (data_f this) < size_f rhs) = False"
     "(size_f this \<le> size_f rhs) = False"
    using s assms(4) by (simp_all add: RawMemory_Capacity_def)
  have sc: "std_copy T (GetAddress (data_f rhs)) (ptr_add (GetAddress (data_f rhs)) (size_f rhs))
               (GetAddress (data_f this)) m
     = assign_n (assign_copy T) (buffer_f (data_f rhs), 0) (length ys) (buffer_f (data_f this), 0) m"
    using s by (simp add: std_copy_def ptr_diff_def GetAddress_def ptr_add_def)
  have ne: "xs \<noteq> []" using assms(4) by auto
  obtain t where t: "buffer_f (data_f this) = Some t" "t < length (heap m)"
    using holds_buffer[OF assms(1)] ne by auto
  have rt: "buffer_f (data_f rhs) \<noteq> Some t" using assms(3) t by (auto simp: separate_def)
  have pp: "ptr_add (GetAddress (data_f this)) (size_f rhs) = (Some t, length ys)"
    "size_f this - size_f rhs = length xs - length ys"
    using s t by (simp_all add: GetAddress_def ptr_add_def)
  have tk: "take (length ys) ys = ys" by simp
  obtain r1 m1 where 1: "assign_n (assign_copy T) (buffer_f (data_f rhs), 0) (length ys) (buffer_f (data_f this), 0) m = (r1, m1)"
      "new_fails m1 = new_fails m" "holds m1 rhs ys l"
      "list_all (assign_ok T) ys \<longrightarrow>
              r1 = Ret () \<and> holds m1 this (ys @ drop (length ys) xs) k \<and>
              log m1 = log m @ map CopyAssign ys"
      "\<not> list_all (assign_ok T) ys \<longrightarrow>
              r1 = Throw elem_exn \<and> (\<exists>zs. length zs = length xs \<and> holds m1 this zs k)"
    using assign_prefix[OF assms(1,2,3), of "length ys" T] assms(4) tk by auto
  show ?thesis
  proof (cases "list_all (assign_ok T) ys")
    case False
    then have r1: "r1 = Throw elem_exn" and z: "\<exists>zs. length zs = length xs \<and> holds m1 this zs k"
      using 1(5) by auto
    have "Vector_assign T (Other rhs) this m = (Throw elem_exn, this, m1)"
      using 1(1) r1
      by (simp only: Vector_assign_def reference.case cond if_True if_False sc prod.case outcome.case)
    then show ?thesis using 1(2,3) z False by simp
  next
    case True
    let ?zs = "ys @ drop (length ys) xs"
    have r1: "r1 = Ret ()" and h1: "holds m1 this ?zs k"
      and l1: "log m1 = log m @ map CopyAssign ys"
      using 1(4) True by auto
    have lz: "length ?zs = length xs" using assms(4) by simp
    have t1: "t < length (heap m1)" "heap m1 ! t = Some (map Obj ?zs @ replicate k Raw)"
      using h1 t(1) by (simp_all add: holds_def)
    let ?m2 = "m1\<lparr>heap := (heap m1)[t := Some (map Obj (take (length ys) ?zs) @
                                  replicate (k + (length ?zs - length ys)) Raw)],
                 log := log m1 @ map Dtor (drop (length ys) ?zs)\<rparr>"
    have d: "destroy_n (Some t, length ys) (length ?zs - length ys) m1 = (Ret (), ?m2)"
      using t1 assms(4) by (intro destroy_tail) simp_all
    have d': "destroy_n (Some t, length ys) (length xs - length ys) m1 = (Ret (), ?m2)"
      using d by (simp only: lz)
    have "Vector_assign T (Other rhs) this m = (Ret (), this\<lparr>size_f := size_f rhs\<rparr>, ?m2)"
      using 1(1) r1
      by (simp only: Vector_assign_def reference.case cond if_True if_False sc pp prod.case outcome.case d')
    moreover have "holds ?m2 (this\<lparr>size_f := size_f rhs\<rparr>) ys (length xs + k - length ys)"
      using t t1 s assms(4) ne by (simp add: holds_def add.commute)
    moreover have "holds ?m2 rhs ys l"
      by (rule holds_update_other[OF 1(3) _ rt]) simp
    ultimately show ?thesis using 1(2) l1 True by simp
  qed
qed

lemma construct_move_same:
  assumes "a < length (heap m)" "heap m ! a = Some A" "i < length A" "A ! i = Obj x"
    "j < length A" "i \<noteq> j"
  shows "construct_move T (Some a, j) (Some a, i) m =
     (if may_throw T (MoveCtor x) then (Throw elem_exn, m\<lparr>log := log m @ [MoveCtor x]\<rparr>)
      else (Ret (), m\<lparr>heap := (heap m)[a := Some (A[j := Obj x, i := Obj (moved_from T x)])],
                      log := log m @ [MoveCtor x]\<rparr>))"
  using assms
  by (simp add: construct_move_def placement_new_def slot_at_live store_live log_call_def)

lemma Emplace_in_place_start:
  assumes "holds m v xs k" "0 < k" "xs \<noteq> []" "pos = (buffer_f (data_f v), d)"
  shows "(may_throw T (init_call args) \<longrightarrow>
           Emplace T pos args v m = (Throw elem_exn, v, m\<lparr>log := log m @ [init_call args]\<rparr>))
       \<and> (\<not> may_throw T (init_call args) \<and> may_throw T (MoveCtor (last xs)) \<longrightarrow>
           Emplace T pos args v m =
             (Throw elem_exn, v,
              m\<lparr>log := log m @ [init_call args, MoveCtor (last xs), Dtor (init_value args)]\<rparr>))"
proof -
  let ?A = "map Obj xs @ replicate k Raw"
  let ?n = "length xs"
  obtain a where a: "buffer_f (data_f v) = Some a" "a < length (heap m)" "heap m ! a = Some ?A"
    using holds_buffer[OF assms(1)] assms(2) by auto
  have s: "size_f v = ?n" "Capacity v = ?n + k"
    using assms(1) by (simp_all add: holds_def Capacity_def RawMemory_Capacity_def)
  have c0: "(size_f v = 0) = False" using s assms(3) by simp
  have c1: "(size_f v = Capacity v) = False" using s assms(2) by simp
  have pd: "ptr_diff pos (Vector_begin v) = Some d"
    using assms(4) by (simp add: ptr_diff_def Vector_begin_def GetAddress_def)
  let ?m1 = "m\<lparr>log := log m @ [init_call args]\<rparr>"
  have p: "ptr_add (GetAddress (data_f v)) (size_f v) = (Some a, ?n)"
      "(fst (Vector_end v), snd (Vector_end v) - 1) = (Some a, ?n - 1)"
    using a s by (simp_all add: Vector_end_def GetAddress_def ptr_add_def)
  have l: "?A ! (?n - 1) = Obj (last xs)"
    using assms(3) by (simp add: nth_append last_conv_nth)
  have hm1: "a < length (heap ?m1)" "heap ?m1 ! a = Some ?A" using a by simp_all
  have cm: "construct_move T (Some a, ?n) (Some a, ?n - 1) ?m1 =
     (if may_throw T (MoveCtor (last xs)) then (Throw elem_exn, ?m1\<lparr>log := log ?m1 @ [MoveCtor (last xs)]\<rparr>)
      else (Ret (), ?m1\<lparr>heap := (heap ?m1)[a := Some (?A[?n := Obj (last xs), ?n - 1 := Obj (moved_from T (last xs))])],
                      log := log ?m1 @ [MoveCtor (last xs)]\<rparr>))"
  proof -
    have ne: "?n - 1 < length ?A" "?n < length ?A" "?n - 1 \<noteq> ?n"
      using assms(2,3) by (cases xs; simp)+
    show ?thesis by (rule construct_move_same[OF hm1 ne(1) l ne(2,3)])
  qed
  show ?thesis
  proof (intro conjI impI)
    assume t: "may_throw T (init_call args)"
    have cl: "construct_local T args m = (Throw elem_exn, ?m1)"
      using t by (simp add: construct_local_def log_call_def)
    show "Emplace T pos args v m = (Throw elem_exn, v, ?m1)"
      by (simp only: Emplace_def c0 c1 if_False pd option.case cl prod.case outcome.case)
  next
    assume t: "\<not> may_throw T (init_call args) \<and> may_throw T (MoveCtor (last xs))"
    have cl: "construct_local T args m = (Ret (init_value args), ?m1)"
      using t by (simp add: construct_local_def log_call_def)
    have cm': "construct_move T (Some a, ?n) (Some a, ?n - 1) ?m1 =
       (Throw elem_exn, ?m1\<lparr>log := log ?m1 @ [MoveCtor (last xs)]\<rparr>)"
      using cm t by simp
    have "Emplace T pos args v m =
        (Throw elem_exn, v, destroy_local (init_value args) (?m1\<lparr>log := log ?m1 @ [MoveCtor (last xs)]\<rparr>))"
      by (simp only: Emplace_def c0 c1 if_False pd option.case cl prod.case outcome.case p cm')
    then show "Emplace T pos args v m =
             (Throw elem_exn, v,
              m\<lparr>log := log m @ [init_call args, MoveCtor (last xs), Dtor (init_value args)]\<rparr>)"
      by (simp add: destroy_local_def log_call_def)
  qed
qed

lemma Emplace_at_end_in_place:
  assumes "holds m v xs k" "0 < k" "xs \<noteq> []" "pos = (buffer_f (data_f v), length xs)"
    "\<not> may_throw T (init_call args)" "\<not> may_throw T (MoveCtor (last xs))"
  shows "Emplace T pos args v m =
     (UB, v,
      m\<lparr>heap := (heap m)[the (buffer_f (data_f v)) :=
                   Some (map Obj (butlast xs @ [moved_from T (last xs), last xs]) @ replicate (k - 1) Raw)],
        log := log m @ [init_call args, MoveCtor (last xs)]\<rparr>)"
proof -
  let ?A = "map Obj xs @ replicate k Raw"
  let ?n = "length xs"
  obtain a where a: "buffer_f (data_f v) = Some a" "a < length (heap m)" "heap m ! a = Some ?A"
    using holds_buffer[OF assms(1)] assms(2) by auto
  have s: "size_f v = ?n" "Capacity v = ?n + k"
    using assms(1) by (simp_all add: holds_def Capacity_def RawMemory_Capacity_def)
  have c0: "(size_f v = 0) = False" using s assms(3) by simp
  have c1: "(size_f v = Capacity v) = False" using s assms(2) by simp
  have pd: "ptr_diff pos (Vector_begin v) = Some ?n"
    using assms(4) by (simp add: ptr_diff_def Vector_begin_def GetAddress_def)
  let ?m1 = "m\<lparr>log := log m @ [init_call args]\<rparr>"
  have p: "ptr_add (GetAddress (data_f v)) (size_f v) = (Some a, ?n)"
      "(fst (Vector_end v), snd (Vector_end v) - 1) = (Some a, ?n - 1)"
      "RawMemory_index (data_f v) ?n = Some (Some a, ?n)"
    using a s assms(2)
    by (simp_all add: Vector_end_def GetAddress_def ptr_add_def RawMemory_index_def
          Capacity_def RawMemory_Capacity_def)
  have l: "?A ! (?n - 1) = Obj (last xs)"
    using assms(3) by (simp add: nth_append last_conv_nth)
  have hm1: "a < length (heap ?m1)" "heap ?m1 ! a = Some ?A" using a by simp_all
  have ne: "?n - 1 < length ?A" "?n < length ?A" "?n - 1 \<noteq> ?n" "\<not> ?n \<le> ?n - 1"
    using assms(2,3) by (cases xs; simp)+
  let ?m2 = "?m1\<lparr>heap := (heap ?m1)[a := Some (?A[?n := Obj (last xs), ?n - 1 := Obj (moved_from T (last xs))])],
                      log := log ?m1 @ [MoveCtor (last xs)]\<rparr>"
  have cl: "construct_local T args m = (Ret (init_value args), ?m1)"
    using assms(5) by (simp add: construct_local_def log_call_def)
  have cm: "construct_move T (Some a, ?n) (Some a, ?n - 1) ?m1 = (Ret (), ?m2)"
    using construct_move_same[OF hm1 ne(1) l ne(2,3), of T] assms(6) by simp
  have mb: "std_move_backward T (Some a, ?n) (Some a, ?n - 1) (Vector_end v) ?m2 = (UB, ?m2)"
    using ne(4) by (simp add: std_move_backward_def ptr_diff_def)
  have E: "Emplace T pos args v m = (UB, v, ?m2)"
    by (simp only: Emplace_def c0 c1 if_False pd option.case cl prod.case outcome.case p cm mb)
  have A2: "?A[?n := Obj (last xs), ?n - 1 := Obj (moved_from T (last xs))] =
      map Obj (butlast xs @ [moved_from T (last xs), last xs]) @ replicate (k - 1) Raw"
  proof -
    obtain ys y where xs: "xs = ys @ [y]" using assms(3) by (cases xs rule: rev_cases) auto
    obtain k' where k: "k = Suc k'" using assms(2) by (cases k) auto
    show ?thesis unfolding xs k by (simp add: list_update_append)
  qed
  show ?thesis unfolding E A2[symmetric] using a by simp
qed

lemma shift_right_pre:
  "length us = d \<Longrightarrow>
   take (Suc (length ws)) (drop d (map Obj ((us @ ws) @ [p, q]) @ R)) = map Obj (ws @ [p])"
  by simp

lemma shift_right_post:
  "length us = d \<Longrightarrow> length zs = Suc (length ws) \<Longrightarrow>
   splice d (map Obj zs) (map Obj ((us @ ws) @ [p, q]) @ R) = map Obj (us @ zs @ [q]) @ R"
  by (simp add: splice_def)

lemma Emplace_in_place:
  assumes "holds m v xs k" "0 < k" "d < length xs" "pos = (buffer_f (data_f v), d)"
    "\<not> may_throw T (init_call args)" "\<not> may_throw T (MoveCtor (last xs))"
  shows "(list_all (\<lambda>x. \<not> may_throw T (MoveAssign x)) (butlast (drop d xs)) \<and>
          \<not> may_throw T (MoveAssign (init_value args)) \<longrightarrow>
           Emplace T pos args v m =
            (Ret pos, v\<lparr>size_f := Suc (length xs)\<rparr>,
             m\<lparr>heap := (heap m)[the (buffer_f (data_f v)) :=
                          Some (map Obj (take d xs @ [init_value args] @ drop d xs) @ replicate (k - 1) Raw)],
               log := log m @ [init_call args, MoveCtor (last xs)] @
                        map MoveAssign (rev (butlast (drop d xs))) @
                        [MoveAssign (init_value args), Dtor (moved_from T (init_value args))]\<rparr>))
       \<and> (\<not> (list_all (\<lambda>x. \<not> may_throw T (MoveAssign x)) (butlast (drop d xs)) \<and>
          \<not> may_throw T (MoveAssign (init_value args))) \<longrightarrow>
           (\<exists>m' zs. Emplace T pos args v m = (Throw elem_exn, v, m') \<and>
                length zs = Suc (length xs) \<and> take d zs = take d xs \<and>
                length (heap m') = length (heap m) \<and>
                heap m' ! the (buffer_f (data_f v)) = Some (map Obj zs @ replicate (k - 1) Raw) \<and>
                new_fails m' = new_fails m))"
proof -
  let ?ok = "\<lambda>x. \<not> may_throw T (MoveAssign x)"
  let ?A = "map Obj xs @ replicate k Raw"
  let ?n = "length xs"
  let ?x = "init_value args"
  let ?ws = "butlast (drop d xs)"
  let ?mf = "moved_from T (last xs)"
  have xne: "xs \<noteq> []" using assms(3) by auto
  obtain a where a: "buffer_f (data_f v) = Some a" "a < length (heap m)" "heap m ! a = Some ?A"
    using holds_buffer[OF assms(1)] assms(2) by auto
  have s: "size_f v = ?n" "Capacity v = ?n + k"
    using assms(1) by (simp_all add: holds_def Capacity_def RawMemory_Capacity_def)
  have c0: "(size_f v = 0) = False" using s xne by simp
  have c1: "(size_f v = Capacity v) = False" using s assms(2) by simp
  have pd: "ptr_diff pos (Vector_begin v) = Some d"
    using assms(4) by (simp add: ptr_diff_def Vector_begin_def GetAddress_def)
  let ?m1 = "m\<lparr>log := log m @ [init_call args]\<rparr>"
  have p: "ptr_add (GetAddress (data_f v)) (size_f v) = (Some a, ?n)"
      "(fst (Vector_end v), snd (Vector_end v) - 1) = (Some a, ?n - 1)"
      "RawMemory_index (data_f v) d = Some (Some a, d)"
    using a s assms(2,3)
    by (simp_all add: Vector_end_def GetAddress_def ptr_add_def RawMemory_index_def
          Capacity_def RawMemory_Capacity_def)
  have l: "?A ! (?n - 1) = Obj (last xs)"
    using xne by (simp add: nth_append last_conv_nth)
  have hm1: "a < length (heap ?m1)" "heap ?m1 ! a = Some ?A" using a by simp_all
  have ne: "?n - 1 < length ?A" "?n < length ?A" "?n - 1 \<noteq> ?n"
    using assms(2) xne by (cases xs; simp)+
  let ?A2 = "map Obj (butlast xs @ [?mf, last xs]) @ replicate (k - 1) Raw"
  have A2: "?A[?n := Obj (last xs), ?n - 1 := Obj ?mf] = ?A2"
  proof -
    obtain ys y where xs: "xs = ys @ [y]" using xne by (cases xs rule: rev_cases) auto
    obtain k' where k: "k = Suc k'" using assms(2) by (cases k) auto
    show ?thesis unfolding xs k by (simp add: list_update_append)
  qed
  let ?m2 = "m\<lparr>heap := (heap m)[a := Some ?A2], log := log m @ [init_call args, MoveCtor (last xs)]\<rparr>"
  have cl: "construct_local T args m = (Ret ?x, ?m1)"
    using assms(5) by (simp add: construct_local_def log_call_def)
  have cm: "construct_move T (Some a, ?n) (Some a, ?n - 1) ?m1 = (Ret (), ?m2)"
    unfolding A2[symmetric] using construct_move_same[OF hm1 ne(1) l ne(2,3), of T] assms(6) by simp
  have lw: "length ?ws = ?n - 1 - d" by simp
  have pdb: "ptr_diff (Some a, ?n - 1) (Some a, d) = Some (length ?ws)"
    using assms(3) by (simp add: ptr_diff_def)
  have ve: "Vector_end v = (Some a, ?n)" using a s by (simp add: Vector_end_def GetAddress_def ptr_add_def)
  have mbe: "std_move_backward T (Some a, d) (Some a, ?n - 1) (Vector_end v) ?m2 =
      assign_down T (Some a, d) (length ?ws) (Some a, Suc d) ?m2"
  proof -
    have nl: "(?n < length ?ws) = False" "?n - length ?ws = Suc d" using assms(3) by simp_all
    show ?thesis
      by (simp only: std_move_backward_def pdb ve option.case snd_conv fst_conv nl if_False)
  qed
  have hm2: "a < length (heap ?m2)" "heap ?m2 ! a = Some ?A2" using a by simp_all
  have dne: "drop d xs \<noteq> []" using assms(3) by simp
  have bd: "butlast xs = take d xs @ ?ws"
    using butlast_append[of "take d xs" "drop d xs"] dne by (simp only: append_take_drop_id if_False)
  have lu: "length (take d xs) = d" using assms(3) by simp
  have pre: "take (Suc (length ?ws)) (drop d ?A2) = map Obj (?ws @ [?mf])"
    unfolding bd by (rule shift_right_pre[OF lu])
  note L = shift_right_loop[OF hm2 pre, of T]
  have sp: "\<And>zs. length zs = Suc (length ?ws) \<Longrightarrow>
      splice d (map Obj zs) ?A2 = map Obj (take d xs @ zs @ [last xs]) @ replicate (k - 1) Raw"
    unfolding bd by (rule shift_right_post[OF lu])
  show ?thesis
  proof (cases "list_all ?ok ?ws")
    case True
    let ?h = "if ?ws = [] then ?mf else moved_from T (hd ?ws)"
    let ?A3 = "map Obj (take d xs @ (?h # ?ws) @ [last xs]) @ replicate (k - 1) Raw"
    let ?m3 = "m\<lparr>heap := (heap m)[a := Some ?A3],
                 log := log m @ [init_call args, MoveCtor (last xs)] @ map MoveAssign (rev ?ws)\<rparr>"
    have L1: "assign_down T (Some a, d) (length ?ws) (Some a, Suc d) ?m2 =
        (Ret (), ?m2\<lparr>heap := (heap ?m2)[a := Some (splice d (map Obj (?h # ?ws)) ?A2)],
                      log := log ?m2 @ map MoveAssign (rev ?ws)\<rparr>)"
      using L True by blast
    have sph: "splice d (map Obj (?h # ?ws)) ?A2 = ?A3" by (rule sp) simp
    have m3eq: "?m2\<lparr>heap := (heap ?m2)[a := Some (splice d (map Obj (?h # ?ws)) ?A2)],
                      log := log ?m2 @ map MoveAssign (rev ?ws)\<rparr> = ?m3"
      by (simp only: sph) simp
    have mb: "std_move_backward T (Some a, d) (Some a, ?n - 1) (Vector_end v) ?m2 = (Ret (), ?m3)"
      by (simp only: mbe L1 m3eq)
    have hm3: "a < length (heap ?m3)" "heap ?m3 ! a = Some ?A3" using a by simp_all
    have d3: "d < length ?A3" "?A3 ! d = Obj ?h"
      using assms(3) by (simp_all add: nth_append)
    have wl: "?ws @ [last xs] = drop d xs"
      using assms(3) by (simp add: last_drop[symmetric] del: last_drop)
    have A4: "?A3[d := Obj ?x] = map Obj (take d xs @ [?x] @ drop d xs) @ replicate (k - 1) Raw"
      using assms(3) wl by (simp add: list_update_append)
    let ?m4t = "?m3\<lparr>log := log ?m3 @ [MoveAssign ?x]\<rparr>"
    let ?m4 = "?m3\<lparr>heap := (heap ?m3)[a := Some (?A3[d := Obj ?x])], log := log ?m3 @ [MoveAssign ?x]\<rparr>"
    have as: "assign_at T (Some a, d) (MoveAssign ?x) ?x ?m3 =
       (if may_throw T (MoveAssign ?x) then (Throw elem_exn, ?m4t) else (Ret (), ?m4))"
      by (rule assign_at_live[OF hm3 d3])
    show ?thesis
    proof (cases "may_throw T (MoveAssign ?x)")
      case False
      have as': "assign_at T (Some a, d) (MoveAssign ?x) ?x ?m3 = (Ret (), ?m4)" using as False by simp
      have E0: "Emplace T pos args v m =
          (Ret (Some a, d), v\<lparr>size_f := size_f v + 1\<rparr>, destroy_local (moved_from T ?x) ?m4)"
        by (simp only: Emplace_def c0 c1 if_False pd option.case cl prod.case outcome.case p cm mb as')
      have m5: "destroy_local (moved_from T ?x) ?m4 =
          m\<lparr>heap := (heap m)[a := Some (map Obj (take d xs @ [?x] @ drop d xs) @ replicate (k - 1) Raw)],
            log := log m @ [init_call args, MoveCtor (last xs)] @ map MoveAssign (rev ?ws) @
                     [MoveAssign ?x, Dtor (moved_from T ?x)]\<rparr>"
        by (simp only: A4) (simp add: destroy_local_def log_call_def)
      have "Emplace T pos args v m =
          (Ret (Some a, d), v\<lparr>size_f := size_f v + 1\<rparr>,
           m\<lparr>heap := (heap m)[a := Some (map Obj (take d xs @ [?x] @ drop d xs) @ replicate (k - 1) Raw)],
            log := log m @ [init_call args, MoveCtor (last xs)] @ map MoveAssign (rev ?ws) @
                     [MoveAssign ?x, Dtor (moved_from T ?x)]\<rparr>)"
        using E0 by (simp only: m5)
      then show ?thesis using True False a s assms(4) by simp
    next
      case t: True
      have as': "assign_at T (Some a, d) (MoveAssign ?x) ?x ?m3 = (Throw elem_exn, ?m4t)" using as t by simp
      have E: "Emplace T pos args v m = (Throw elem_exn, v, destroy_local ?x ?m4t)"
        by (simp only: Emplace_def c0 c1 if_False pd option.case cl prod.case outcome.case p cm mb as')
      let ?zs = "take d xs @ (?h # ?ws) @ [last xs]"
      have "length ?zs = Suc ?n" "take d ?zs = take d xs" using assms(3) by simp_all
      moreover have "length (heap (destroy_local ?x ?m4t)) = length (heap m)"
          "heap (destroy_local ?x ?m4t) ! the (buffer_f (data_f v)) = Some (map Obj ?zs @ replicate (k - 1) Raw)"
          "new_fails (destroy_local ?x ?m4t) = new_fails m"
        using a by (simp_all add: destroy_local_def log_call_def)
      ultimately show ?thesis using t E by blast
    qed
  next
    case False
    then obtain m' zs where f: "assign_down T (Some a, d) (length ?ws) (Some a, Suc d) ?m2 =
                    (Throw elem_exn, m')" "length zs = Suc (length ?ws)"
                   "heap m' = (heap ?m2)[a := Some (splice d (map Obj zs) ?A2)]"
                   "new_fails m' = new_fails ?m2"
      using L by blast
    have mb: "std_move_backward T (Some a, d) (Some a, ?n - 1) (Vector_end v) ?m2 = (Throw elem_exn, m')"
      by (simp only: mbe f(1))
    have E: "Emplace T pos args v m = (Throw elem_exn, v, destroy_local ?x m')"
      by (simp only: Emplace_def c0 c1 if_False pd option.case cl prod.case outcome.case p cm mb)
    let ?zs = "take d xs @ zs @ [last xs]"
    have "length ?zs = Suc ?n" "take d ?zs = take d xs" using assms(3) f(2) by simp_all
    moreover have "length (heap (destroy_local ?x m')) = length (heap m)"
        "heap (destroy_local ?x m') ! the (buffer_f (data_f v)) = Some (map Obj ?zs @ replicate (k - 1) Raw)"
        "new_fails (destroy_local ?x m') = new_fails m"
      using a f(3,4) sp[OF f(2)] by (simp_all add: destroy_local_def log_call_def)
    ultimately show ?thesis using False E by blast
  qed
qed

lemma grow_block_prefix:
  "length us < c \<Longrightarrow>
   splice 0 (map Obj us) ((replicate c Raw)[length us := Obj x]) =
     map Obj (us @ [x]) @ replicate (c - Suc (length us)) Raw"
  by (simp add: splice_def drop_replicate_update)

lemma grow_block_suffix:
  "length us + length ws < c \<Longrightarrow>
   splice (Suc (length us)) (map Obj ws) (map Obj (us @ [x]) @ replicate (c - Suc (length us)) Raw) =
     map Obj (us @ [x] @ ws) @ replicate (c - Suc (length us + length ws)) Raw"
  by (simp add: splice_def)

lemma update_both:
  "a < length H \<Longrightarrow> (H[a := X] @ [Y])[length H := Z, a := W] = H[a := W] @ [Z]"
  by (simp add: list_eq_iff_nth_eq nth_append nth_list_update)

lemma update_last:
  "(H[a := X] @ [Y])[length H := Z] = H[a := X] @ [Z]"
  by (simp add: list_eq_iff_nth_eq nth_append nth_list_update)

lemma relocatable_append: "relocatable T (us @ ws) \<longleftrightarrow> relocatable T us \<and> relocatable T ws"
  by (simp add: relocatable_def)

lemma Emplace_grow_start:
  assumes "holds m v xs 0" "xs \<noteq> []" "pos = (buffer_f (data_f v), d)"
  shows "(new_fails m (length (heap m)) (grown (length xs)) \<longrightarrow>
            Emplace T pos args v m = (Throw bad_alloc, v, m))
       \<and> (\<not> new_fails m (length (heap m)) (grown (length xs)) \<and> d \<le> length xs \<and>
          may_throw T (init_call args) \<longrightarrow>
            Emplace T pos args v m =
              (Throw elem_exn, v, m\<lparr>heap := heap m @ [None], log := log m @ [init_call args]\<rparr>))"
proof -
  let ?c = "grown (length xs)"
  let ?b = "length (heap m)"
  let ?nd = "\<lparr>buffer_f = Some ?b, capacity_f = ?c\<rparr>"
  let ?m1 = "m\<lparr>heap := heap m @ [Some (replicate ?c Raw)]\<rparr>"
  have g: "(if size_f v = 0 then 1 else size_f v * 2) = ?c"
    using assms(1) by (simp add: grown_def holds_def)
  have g2: "size_f v * 2 = ?c"
    using assms(1,2) by (simp add: grown_def holds_def)
  have f: "size_f v = Capacity v" "size_f v = length xs"
    using assms(1) by (simp_all add: holds_def Capacity_def RawMemory_Capacity_def)
  have c0: "(size_f v = 0) = False" using assms(1,2) by (simp add: holds_def)
  have c1: "(size_f v = Capacity v) = True" using f by simp
  have pd: "ptr_diff pos (Vector_begin v) = Some d"
    using assms(3) by (simp add: ptr_diff_def Vector_begin_def GetAddress_def)
  show ?thesis
  proof (intro conjI impI)
    assume nf: "new_fails m ?b ?c"
    have c: "RawMemory_ctor ?c m = (Throw bad_alloc, m)"
      using nf grown_pos by (simp add: RawMemory_ctor_eq)
    show "Emplace T pos args v m = (Throw bad_alloc, v, m)"
      by (simp only: Emplace_def c0 c1 if_False if_True pd option.case g g2 c prod.case outcome.case)
  next
    assume t: "\<not> new_fails m ?b ?c \<and> d \<le> length xs \<and> may_throw T (init_call args)"
    have c: "RawMemory_ctor ?c m = (Ret ?nd, ?m1)"
      using t grown_pos by (simp add: RawMemory_ctor_eq)
    have dc: "d < ?c" using t grown_pos(1)[of "length xs"] by simp
    have n: "construct_from T (ptr_add (GetAddress ?nd) d) args ?m1 =
        (Throw elem_exn, ?m1\<lparr>log := log ?m1 @ [init_call args]\<rparr>)"
      using construct_from_live[of ?b ?m1 "replicate ?c Raw" d T args] t dc
      by (simp add: GetAddress_def ptr_add_def)
    have "Emplace T pos args v m =
        (Throw elem_exn, v, RawMemory_dtor ?nd (?m1\<lparr>log := log ?m1 @ [init_call args]\<rparr>))"
      by (simp only: Emplace_def c0 c1 if_False if_True pd option.case g g2 c prod.case outcome.case n)
    then show "Emplace T pos args v m =
              (Throw elem_exn, v, m\<lparr>heap := heap m @ [None], log := log m @ [init_call args]\<rparr>)"
      by (simp add: RawMemory_dtor_def Deallocate_eq free_def)
  qed
qed

lemma Emplace_grow_cases:
  assumes "holds m v (us @ ws) 0" "us @ ws \<noteq> []" "pos = (buffer_f (data_f v), length us)"
    "\<not> new_fails m (length (heap m)) (grown (length (us @ ws)))"
    "\<not> may_throw T (init_call args)"
  shows "(relocatable T (us @ ws) \<longrightarrow>
           Emplace T pos args v m =
            (Ret (Some (length (heap m)), length us),
             \<lparr>data_f = \<lparr>buffer_f = Some (length (heap m)), capacity_f = grown (length (us @ ws))\<rparr>,
               size_f = Suc (length (us @ ws))\<rparr>,
             m\<lparr>heap := free (buffer_f (data_f v)) (heap m) @
                         [Some (map Obj (us @ [init_value args] @ ws) @
                                replicate (grown (length (us @ ws)) - Suc (length (us @ ws))) Raw)],
               log := log m @ [init_call args] @ map (reloc_call T) (us @ ws) @
                        map Dtor (map (src_after T) (us @ ws))\<rparr>))
       \<and> (\<not> relocatable T (us @ ws) \<longrightarrow>
           (\<exists>m' ys. Emplace T pos args v m = (Throw elem_exn, v, m') \<and>
              length ys = length (us @ ws) \<and>
              holds m' v ys 0 \<and> new_fails m' = new_fails m \<and>
              heap m' ! length (heap m) = None \<and> length (heap m') = Suc (length (heap m)) \<and>
              (\<not> uses_move T \<longrightarrow> ys = us @ ws \<and> heap m' = heap m @ [None])))"
proof -
  let ?xs = "us @ ws"
  let ?d = "length us"
  let ?c = "grown (length ?xs)"
  let ?b = "length (heap m)"
  let ?x = "init_value args"
  let ?nd = "\<lparr>buffer_f = Some ?b, capacity_f = ?c\<rparr>"
  let ?m1 = "m\<lparr>heap := heap m @ [Some (replicate ?c Raw)]\<rparr>"
  let ?B1 = "(replicate ?c Raw)[?d := Obj ?x]"
  let ?A = "map Obj ?xs @ replicate 0 Raw"
  let ?m2 = "m\<lparr>heap := heap m @ [Some ?B1], log := log m @ [init_call args]\<rparr>"
  obtain a where a: "buffer_f (data_f v) = Some a" "a < length (heap m)" "heap m ! a = Some ?A"
    using holds_buffer[OF assms(1)] assms(2) by auto
  have g: "(if size_f v = 0 then 1 else size_f v * 2) = ?c"
    using assms(1) by (simp add: grown_def holds_def)
  have g2: "size_f v * 2 = ?c"
    using assms(1,2) by (simp add: grown_def holds_def)
  have f: "size_f v = Capacity v" "size_f v = length ?xs"
    using assms(1) by (simp_all add: holds_def Capacity_def RawMemory_Capacity_def)
  have c0: "(size_f v = 0) = False" using assms(1,2) by (simp add: holds_def)
  have c1: "(size_f v = Capacity v) = True" using f by simp
  have c2: "(size_f v < ?d) = False" using f by simp
  have pd: "ptr_diff pos (Vector_begin v) = Some ?d"
    using assms(3) by (simp add: ptr_diff_def Vector_begin_def GetAddress_def)
  have c: "RawMemory_ctor ?c m = (Ret ?nd, ?m1)"
    using assms(4) grown_pos by (simp add: RawMemory_ctor_eq)
  have gc: "length us + length ws < ?c" "?d < ?c" using grown_pos(1)[of "length ?xs"] by simp_all
  have n: "construct_from T (Some ?b, ?d) args ?m1 = (Ret (), ?m2)"
    using construct_from_live[of ?b ?m1 "replicate ?c Raw" ?d T args] assms(5) gc
    by simp
  have p: "GetAddress (data_f v) = (Some a, 0)" "GetAddress ?nd = (Some ?b, 0)"
    "ptr_add (Some a, 0) ?d = (Some a, ?d)"
    "ptr_add (Some ?b, 0) ?d = (Some ?b, ?d)"
    "ptr_add (Some ?b, 0) (?d + 1) = (Some ?b, Suc ?d)"
    "size_f v - ?d = length ws"
    using a f by (simp_all add: GetAddress_def ptr_add_def)
  have ab: "a \<noteq> ?b" using a by simp
  have hm2: "a < length (heap ?m2)" "?b < length (heap ?m2)" "heap ?m2 ! a = Some ?A"
    "heap ?m2 ! ?b = Some ?B1"
    using a by (simp_all add: nth_append)
  have pre1: "take (length us) (drop 0 ?A) = map Obj us" by simp
  have fit1: "0 + length us \<le> length ?B1" using gc by simp
  have raw1: "take (length us) (drop 0 ?B1) = replicate (length us) Raw"
    using gc by (simp add: take_replicate_update)
  note R1 = relocate_n_cases[OF ab hm2 pre1 fit1 raw1, of T]
  let ?B2 = "map Obj (us @ [?x]) @ replicate (?c - Suc ?d) Raw"
  have B2: "splice 0 (map Obj us) ?B1 = ?B2" using gc by (intro grow_block_prefix) simp
  have A1: "\<And>ys. length ys = length us \<Longrightarrow> splice 0 (map Obj ys) ?A = map Obj (ys @ ws) @ replicate 0 Raw"
    by (simp add: splice_def)
  show ?thesis
  proof (cases "relocatable T us")
    case ru: True
    let ?A2 = "map Obj (map (src_after T) us @ ws) @ replicate 0 Raw"
    let ?m3 = "m\<lparr>heap := (heap m)[a := Some ?A2] @ [Some ?B2],
                 log := log m @ [init_call args] @ map (reloc_call T) us\<rparr>"
    have r1a: "relocate_n T False (Some a, 0) (length us) (Some ?b, 0) ?m2 =
        (Ret (), ?m2\<lparr>heap := (heap ?m2)[?b := Some (splice 0 (map Obj us) ?B1),
                                       a := Some (splice 0 (map Obj (map (src_after T) us)) ?A)],
                      log := log ?m2 @ map (reloc_call T) us\<rparr>)"
      using R1 ru by blast
    have m3eq: "?m2\<lparr>heap := (heap ?m2)[?b := Some (splice 0 (map Obj us) ?B1),
                                       a := Some (splice 0 (map Obj (map (src_after T) us)) ?A)],
                      log := log ?m2 @ map (reloc_call T) us\<rparr> = ?m3"
    proof -
      have A1u: "splice 0 (map Obj (map (src_after T) us)) ?A = ?A2" by (rule A1) simp
      show ?thesis using a by (simp only: B2 A1u) (simp add: list_update_append1)
    qed
    have r1: "relocate_n T False (Some a, 0) (length us) (Some ?b, 0) ?m2 = (Ret (), ?m3)"
      using r1a by (simp only: m3eq)
    have hm3: "a < length (heap ?m3)" "?b < length (heap ?m3)" "heap ?m3 ! a = Some ?A2"
      "heap ?m3 ! ?b = Some ?B2"
      using a by (simp_all add: nth_append)
    have pre2: "take (length ws) (drop ?d ?A2) = map Obj ws" by simp
    have fit2: "Suc ?d + length ws \<le> length ?B2" using gc by simp
    have raw2: "take (length ws) (drop (Suc ?d) ?B2) = replicate (length ws) Raw"
      using gc by simp
    note R2 = relocate_n_cases[OF ab hm3 pre2 fit2 raw2, of T]
    let ?B3 = "map Obj (us @ [?x] @ ws) @ replicate (?c - Suc (length us + length ws)) Raw"
    have B3: "splice (Suc ?d) (map Obj ws) ?B2 = ?B3" using gc by (intro grow_block_suffix) simp
    have A3: "\<And>ys. length ys = length ws \<Longrightarrow>
        splice ?d (map Obj ys) ?A2 = map Obj (map (src_after T) us @ ys) @ replicate 0 Raw"
      by (simp add: splice_def)
    show ?thesis
    proof (cases "relocatable T ws")
      case rw: True
      let ?m4 = "m\<lparr>heap := (heap m)[a := Some (map Obj (map (src_after T) ?xs) @ replicate 0 Raw)] @ [Some ?B3],
                 log := log m @ [init_call args] @ map (reloc_call T) ?xs\<rparr>"
      have r2a: "relocate_n T False (Some a, ?d) (length ws) (Some ?b, Suc ?d) ?m3 =
        (Ret (), ?m3\<lparr>heap := (heap ?m3)[?b := Some (splice (Suc ?d) (map Obj ws) ?B2),
                                       a := Some (splice ?d (map Obj (map (src_after T) ws)) ?A2)],
                      log := log ?m3 @ map (reloc_call T) ws\<rparr>)"
        using R2 rw by blast
      have m4eq: "?m3\<lparr>heap := (heap ?m3)[?b := Some (splice (Suc ?d) (map Obj ws) ?B2),
                                       a := Some (splice ?d (map Obj (map (src_after T) ws)) ?A2)],
                      log := log ?m3 @ map (reloc_call T) ws\<rparr> = ?m4"
      proof -
        have A3w: "splice ?d (map Obj (map (src_after T) ws)) ?A2 =
            map Obj (map (src_after T) us @ map (src_after T) ws) @ replicate 0 Raw" by (rule A3) simp
        show ?thesis using a by (simp only: B3 A3w) (simp add: update_both)
      qed
      have r2: "relocate_n T False (Some a, ?d) (length ws) (Some ?b, Suc ?d) ?m3 = (Ret (), ?m4)"
        using r2a by (simp only: m4eq)
      have h4: "holds ?m4 v (map (src_after T) ?xs) 0"
        using assms(1) a by (simp add: holds_def nth_append)
      have E0: "Emplace T pos args v m =
            (case replace_storage v ?nd ?m4 of
               (Ret u, v', m5) \<Rightarrow> (Ret (ptr_add (GetAddress (data_f v')) ?d), v'\<lparr>size_f := size_f v' + 1\<rparr>, m5)
             | (Throw e, v', m5) \<Rightarrow> (Throw e, v', m5)
             | (UB, v', m5) \<Rightarrow> (UB, v', m5)
             | (Abort, v', m5) \<Rightarrow> (Abort, v', m5))"
        by (simp only: Emplace_def c0 c1 c2 if_False if_True pd option.case g g2 c prod.case outcome.case
              n p r1 r2)
      have "Emplace T pos args v m =
            (Ret (ptr_add (GetAddress (data_f (v\<lparr>data_f := ?nd\<rparr>))) ?d),
             v\<lparr>data_f := ?nd\<rparr>\<lparr>size_f := size_f (v\<lparr>data_f := ?nd\<rparr>) + 1\<rparr>,
             ?m4\<lparr>heap := free (buffer_f (data_f v)) (heap ?m4),
                  log := log ?m4 @ map Dtor (map (src_after T) ?xs)\<rparr>)"
        by (simp only: E0 replace_storage_ok[OF h4] prod.case outcome.case)
      then show ?thesis using ru rw a f
        by (simp add: free_def list_update_append1 GetAddress_def ptr_add_def relocatable_append)
    next
      case rw: False
      then obtain m' ys where r: "relocate_n T False (Some a, ?d) (length ws) (Some ?b, Suc ?d) ?m3 = (Throw elem_exn, m')"
          "length ys = length ws" "heap m' = (heap ?m3)[a := Some (splice ?d (map Obj ys) ?A2)]"
          "new_fails m' = new_fails ?m3" "\<not> uses_move T \<longrightarrow> ys = ws"
        using R2 by blast
      let ?m'' = "RawMemory_dtor ?nd m'"
      let ?zs = "map (src_after T) us @ ys"
      have E: "Emplace T pos args v m = (Throw elem_exn, v, ?m'')"
        by (simp only: Emplace_def c0 c1 c2 if_False if_True pd option.case g g2 c prod.case outcome.case
              n p r1 r(1))
      have hp: "heap ?m'' = (heap m)[a := Some (map Obj ?zs @ replicate 0 Raw)] @ [None]"
        using a r(3) by (simp only: A3[OF r(2)])
           (simp add: RawMemory_dtor_def Deallocate_eq free_def list_update_append1 update_last)
      have "holds ?m'' v ?zs 0"
        using assms(1) a r(2) hp by (simp add: holds_def nth_append)
      moreover have "length ?zs = length ?xs" using r(2) by simp
      moreover have "new_fails ?m'' = new_fails m"
        using r(4) by (simp add: RawMemory_dtor_def Deallocate_eq)
      moreover have "heap ?m'' ! length (heap m) = None \<and> length (heap ?m'') = Suc (length (heap m))"
        using hp by (simp add: nth_append)
      moreover have sa: "\<not> uses_move T \<longrightarrow> map (src_after T) us = us"
        by (induction us) (simp_all add: src_after_def)
      moreover have "\<not> uses_move T \<longrightarrow> heap ?m'' = heap m @ [None]"
      proof
        assume "\<not> uses_move T"
        then have zeq: "?zs = us @ ws" using sa r(5) by simp
        have "heap ?m'' = (heap m)[a := Some ?A] @ [None]" by (simp only: hp zeq)
        also have "(heap m)[a := Some ?A] = heap m" using a(3) by (rule list_update_same)
        finally show "heap ?m'' = heap m @ [None]" .
      qed
      ultimately show ?thesis using rw r(5) E
        by (auto simp: relocatable_append intro!: exI[of _ ?m''] exI[of _ ?zs])
    qed
  next
    case ru: False
    then obtain m' ys where r: "relocate_n T False (Some a, 0) (length us) (Some ?b, 0) ?m2 = (Throw elem_exn, m')"
        "length ys = length us" "heap m' = (heap ?m2)[a := Some (splice 0 (map Obj ys) ?A)]"
        "new_fails m' = new_fails ?m2" "\<not> uses_move T \<longrightarrow> ys = us"
      using R1 by blast
    let ?m'' = "RawMemory_dtor ?nd m'"
    let ?zs = "ys @ ws"
    have E: "Emplace T pos args v m = (Throw elem_exn, v, ?m'')"
      by (simp only: Emplace_def c0 c1 c2 if_False if_True pd option.case g g2 c prod.case outcome.case
            n p r(1))
    have hp: "heap ?m'' = (heap m)[a := Some (map Obj ?zs @ replicate 0 Raw)] @ [None]"
      using a r(3) by (simp only: A1[OF r(2)])
         (simp add: RawMemory_dtor_def Deallocate_eq free_def list_update_append1 update_last)
    have "holds ?m'' v ?zs 0"
      using assms(1) a r(2) hp by (simp add: holds_def nth_append)
    moreover have "length ?zs = length ?xs" using r(2) by simp
    moreover have "new_fails ?m'' = new_fails m"
      using r(4) by (simp add: RawMemory_dtor_def Deallocate_eq)
    moreover have "heap ?m'' ! length (heap m) = None \<and> length (heap ?m'') = Suc (length (heap m))"
      using hp by (simp add: nth_append)
    moreover have "\<not> uses_move T \<longrightarrow> heap ?m'' = heap m @ [None]"
    proof
      assume "\<not> uses_move T"
      then have zeq: "?zs = us @ ws" using r(5) by simp
      have "heap ?m'' = (heap m)[a := Some ?A] @ [None]" by (simp only: hp zeq)
      also have "(heap m)[a := Some ?A] = heap m" using a(3) by (rule list_update_same)
      finally show "heap ?m'' = heap m @ [None]" .
    qed
    ultimately show ?thesis using ru r(5) E
      by (auto simp: relocatable_append intro!: exI[of _ ?m''] exI[of _ ?zs])
  qed
qed

lemma preserves_Ret: "holds m' v' ys l \<Longrightarrow> preserves (Ret r, v', m')"
  by (simp add: preserves_def holds_inv)

lemma preserves_Throw: "holds m' v' ys l \<Longrightarrow> preserves (Throw e, v', m')"
  by (simp add: preserves_def holds_inv)

lemma holds_log: "holds m v xs k \<Longrightarrow> holds (m\<lparr>log := l\<rparr>) v xs k"
  by (auto simp: holds_def split: option.splits)

lemma holds_buffer_lt:
  "holds m v xs k \<Longrightarrow> d < length xs + k \<Longrightarrow> \<exists>a. buffer_f (data_f v) = Some a"
  by (cases "buffer_f (data_f v)") (auto simp: holds_def)

lemma holds_update_own:
  "holds m v xs k \<Longrightarrow> buffer_f (data_f v) = Some a \<Longrightarrow> length ys + l = length xs + k \<Longrightarrow>
   heap m' = (heap m)[a := Some (map Obj ys @ replicate l Raw)] \<Longrightarrow>
   holds m' (v\<lparr>size_f := length ys\<rparr>) ys l"
  by (auto simp: holds_def)

lemma holds_fresh:
  "0 < length ys + l \<Longrightarrow> heap m' = H @ [Some (map Obj ys @ replicate l Raw)] \<Longrightarrow>
   holds m' \<lparr>data_f = \<lparr>buffer_f = Some (length H), capacity_f = length ys + l\<rparr>, size_f = length ys\<rparr> ys l"
  by (simp add: holds_def)

lemma Reserve_preserves:
  assumes "Vector_inv m v"
  shows "preserves (Reserve T n v m)"
proof -
  obtain xs k where h: "holds m v xs k" using inv_holds[OF assms] by blast
  consider (noop) "n \<le> length xs + k"
    | (bad) "length xs + k < n" "new_fails m (length (heap m)) n"
    | (ok) "length xs + k < n" "\<not> new_fails m (length (heap m)) n" "relocatable T xs"
    | (throw) "length xs + k < n" "\<not> new_fails m (length (heap m)) n" "\<not> relocatable T xs"
    by linarith
  then show ?thesis
  proof cases
    case noop
    show ?thesis unfolding Reserve_noop[OF h noop] using h by (rule preserves_Ret)
  next
    case bad
    show ?thesis unfolding Reserve_bad_alloc[OF h bad] using h by (rule preserves_Throw)
  next
    case ok
    have "holds (m\<lparr>heap := free (buffer_f (data_f v)) (heap m) @ [Some (map Obj xs @ replicate (n - length xs) Raw)],
        log := log m @ map (reloc_call T) xs @ map Dtor (map (src_after T) xs)\<rparr>)
        \<lparr>data_f = \<lparr>buffer_f = Some (length (heap m)), capacity_f = n\<rparr>, size_f = length xs\<rparr>
        xs (n - length xs)"
      using ok(1) by (simp add: holds_def nth_append)
    then show ?thesis unfolding Reserve_ok[OF h ok] by (rule preserves_Ret)
  next
    case throw
    obtain m' ys where "Reserve T n v m = (Throw elem_exn, v, m')" "holds m' v ys k"
      using Reserve_throw[OF h throw] by blast
    then show ?thesis by (simp add: preserves_Throw)
  qed
qed

lemma Resize_preserves:
  assumes "Vector_inv m v"
  shows "preserves (Resize T n v m)"
proof -
  obtain xs k where h: "holds m v xs k" using inv_holds[OF assms] by blast
  consider (same) "n = length xs" | (shrink) "n < length xs" | (grow) "length xs < n" by linarith
  then show ?thesis
  proof cases
    case same
    show ?thesis unfolding same Resize_same[OF h] using h by (rule preserves_Ret)
  next
    case shrink
    obtain a where a: "buffer_f (data_f v) = Some a"
      using holds_buffer_lt[OF h, of n] shrink by auto
    have "holds (m\<lparr>heap := (heap m)[the (buffer_f (data_f v)) :=
                   Some (map Obj (take n xs) @ replicate (k + (length xs - n)) Raw)],
        log := log m @ map Dtor (drop n xs)\<rparr>) (v\<lparr>size_f := n\<rparr>) (take n xs) (k + (length xs - n))"
      using h shrink a by (auto simp: holds_def)
    then show ?thesis unfolding Resize_shrink[OF h shrink] by (rule preserves_Ret)
  next
    case grow
    obtain r v' m' where r: "Resize T n v m = (r, v', m')"
           "case r of
              Ret u \<Rightarrow> holds m' v' (xs @ replicate (n - length xs) (default_value T))
                         (max (length xs + k) n - n)
            | Throw e \<Rightarrow> (\<exists>ys k'. length ys = length xs \<and> holds m' v' ys k')
            | UB \<Rightarrow> False
            | Abort \<Rightarrow> False"
      using Resize_grow[OF h grow, of T] by blast
    show ?thesis using r by (cases r) (auto simp: preserves_def holds_inv)
  qed
qed

lemma EmplaceBack_preserves:
  assumes "Vector_inv m v"
  shows "preserves (EmplaceBack T args v m)"
proof -
  obtain xs k where h: "holds m v xs k" using inv_holds[OF assms] by blast
  show ?thesis
  proof (cases "0 < k")
    case True
    obtain a where a: "buffer_f (data_f v) = Some a"
      using holds_buffer[OF h] True by auto
    have 1: "holds (m\<lparr>log := log m @ [init_call args]\<rparr>) v xs k" using h by (rule holds_log)
    have 2: "holds (m\<lparr>heap := (heap m)[the (buffer_f (data_f v)) :=
                        Some (map Obj (xs @ [init_value args]) @ replicate (k - 1) Raw)],
              log := log m @ [init_call args]\<rparr>) (v\<lparr>size_f := Suc (length xs)\<rparr>)
              (xs @ [init_value args]) (k - 1)"
      using h True a by (auto simp: holds_def)
    show ?thesis unfolding EmplaceBack_room[OF h True]
      using 1 2 by (simp add: preserves_Ret preserves_Throw)
  next
    case False
    then have h0: "holds m v xs 0" using h by simp
    consider (bad) "new_fails m (length (heap m)) (grown (length xs))"
      | (ctor) "\<not> new_fails m (length (heap m)) (grown (length xs))" "may_throw T (init_call args)"
      | (ok) "\<not> new_fails m (length (heap m)) (grown (length xs))" "\<not> may_throw T (init_call args)"
          "relocatable T xs"
      | (throw) "\<not> new_fails m (length (heap m)) (grown (length xs))" "\<not> may_throw T (init_call args)"
          "\<not> relocatable T xs"
      by blast
    then show ?thesis
    proof cases
      case bad
      show ?thesis unfolding EmplaceBack_bad_alloc[OF h0 bad] using h by (rule preserves_Throw)
    next
      case ctor
      have "holds (m\<lparr>heap := heap m @ [None], log := log m @ [init_call args]\<rparr>) v xs 0"
        using h0 by (rule holds_append_block) simp
      then show ?thesis unfolding EmplaceBack_ctor_throws[OF h0 ctor] by (rule preserves_Throw)
    next
      case ok
      have g: "grown (length xs) = length (xs @ [init_value args]) + (grown (length xs) - Suc (length xs))"
        using grown_pos(1)[of "length xs"] by simp
      have "holds (m\<lparr>heap := free (buffer_f (data_f v)) (heap m) @
                         [Some (map Obj (xs @ [init_value args]) @
                                replicate (grown (length xs) - Suc (length xs)) Raw)],
               log := log m @ [init_call args] @ map (reloc_call T) xs @
                        map Dtor (map (src_after T) xs)\<rparr>)
            \<lparr>data_f = \<lparr>buffer_f = Some (length (heap m)), capacity_f = grown (length xs)\<rparr>,
               size_f = Suc (length xs)\<rparr> (xs @ [init_value args]) (grown (length xs) - Suc (length xs))"
        using grown_pos(1)[of "length xs"] by (simp add: holds_def nth_append)
      then show ?thesis using EmplaceBack_grow_cases[OF h0 ok(1,2)] ok(3)
        by (simp add: preserves_Ret)
    next
      case throw
      obtain m' ys where "EmplaceBack T args v m = (Throw elem_exn, v, m')" "holds m' v ys 0"
        using EmplaceBack_grow_cases[OF h0 throw(1,2)] throw(3) by blast
      then show ?thesis by (simp add: preserves_Throw)
    qed
  qed
qed

lemma PushBack_preserves:
  assumes "Vector_inv m v"
  shows "preserves (PushBack T a v m)"
proof -
  obtain xs k where h: "holds m v xs k" using inv_holds[OF assms] by blast
  obtain r v' m' where e: "EmplaceBack T a v m = (r, v', m')" by (cases "EmplaceBack T a v m") auto
  have "preserves (r, v', m')" using EmplaceBack_preserves[OF assms, of T a] e by simp
  then show ?thesis unfolding PushBack_EmplaceBack[OF h] e by (cases r) (simp_all add: preserves_def)
qed

lemma PopBack_preserves:
  assumes "Vector_inv m v" "0 < Size v"
  shows "preserves (PopBack v m)"
proof -
  obtain xs k where h: "holds m v xs k" using inv_holds[OF assms(1)] by blast
  have ne: "xs \<noteq> []" using assms(2) holds_inv[OF h] by auto
  obtain a where a: "buffer_f (data_f v) = Some a"
    using holds_buffer[OF h] ne by auto
  have "holds (m\<lparr>heap := (heap m)[the (buffer_f (data_f v)) :=
                   Some (map Obj (butlast xs) @ replicate (Suc k) Raw)],
        log := log m @ [Dtor (last xs)]\<rparr>) (v\<lparr>size_f := length xs - 1\<rparr>) (butlast xs) (Suc k)"
    using h ne a by (auto simp: holds_def)
  then show ?thesis unfolding PopBack_ok[OF h ne] by (rule preserves_Ret)
qed

lemma Erase_preserves:
  assumes "Vector_inv m v" "d < Size v" "Suc d < Capacity v"
  shows "preserves (Erase T (buffer_f (data_f v), d) v m)"
proof -
  obtain xs k where h: "holds m v xs k" using inv_holds[OF assms(1)] by blast
  have d: "d < length xs" using assms(2) holds_inv[OF h] by auto
  obtain a where a: "buffer_f (data_f v) = Some a"
    using holds_buffer_lt[OF h, of d] d by auto
  have c: "Suc d < length xs + k" using assms(3) holds_inv[OF h] by simp
  note E = Erase_cases[OF h d refl c, of T]
  show ?thesis
  proof (cases "list_all (\<lambda>x. \<not> may_throw T (MoveAssign x)) (drop (Suc d) xs)")
    case True
    have "holds (m\<lparr>heap := (heap m)[the (buffer_f (data_f v)) :=
                          Some (map Obj (take d xs @ drop (Suc d) xs) @ replicate (Suc k) Raw)],
               log := log m @ map MoveAssign (drop (Suc d) xs) @
                        [Dtor (if Suc d = length xs then xs ! d else moved_from T (last xs))]\<rparr>)
        (v\<lparr>size_f := length xs - 1\<rparr>) (take d xs @ drop (Suc d) xs) (Suc k)"
      using h d a by (auto simp: holds_def)
    then show ?thesis using E True by (simp add: preserves_Ret)
  next
    case False
    then obtain m' zs where "Erase T (buffer_f (data_f v), d) v m = (Throw elem_exn, v, m')"
        "holds m' v zs k" using E by blast
    then show ?thesis by (simp add: preserves_Throw)
  qed
qed

lemma Emplace_empty:
  "size_f v = 0 \<Longrightarrow>
   Emplace T pos args v m =
     (case EmplaceBack T args v m of
        (Ret r, v', m1) \<Rightarrow> (Ret (fst (Vector_end v'), snd (Vector_end v') - 1), v', m1)
      | (Throw e, v', m1) \<Rightarrow> (Throw e, v', m1)
      | (UB, v', m1) \<Rightarrow> (UB, v', m1)
      | (Abort, v', m1) \<Rightarrow> (Abort, v', m1))"
  by (simp add: Emplace_def)

lemma Emplace_preserves:
  assumes "Vector_inv m v" "d \<le> Size v" "Size v = 0 \<or> Size v = Capacity v"
  shows "preserves (Emplace T (buffer_f (data_f v), d) args v m)"
proof (cases "Size v = 0")
  case True
  obtain r v' m' where e: "EmplaceBack T args v m = (r, v', m')" by (cases "EmplaceBack T args v m") auto
  have "preserves (r, v', m')" using EmplaceBack_preserves[OF assms(1), of T args] e by simp
  moreover have "size_f v = 0" using True by (simp add: Size_def)
  ultimately show ?thesis unfolding Emplace_empty[OF \<open>size_f v = 0\<close>] e
    by (cases r) (simp_all add: preserves_def)
next
  case False
  obtain xs k where h: "holds m v xs k" using inv_holds[OF assms(1)] by blast
  have s: "Size v = length xs" "Capacity v = length xs + k" using holds_inv[OF h] by simp_all
  have k: "k = 0" using assms(3) False s by simp
  have h0: "holds m v xs 0" using h k by simp
  have ne: "xs \<noteq> []" using False s by auto
  have d: "d \<le> length xs" using assms(2) s by simp
  let ?us = "take d xs" and ?ws = "drop d xs"
  have x: "?us @ ?ws = xs" "length ?us = d" using d by simp_all
  consider (bad) "new_fails m (length (heap m)) (grown (length xs))"
    | (ctor) "\<not> new_fails m (length (heap m)) (grown (length xs))" "may_throw T (init_call args)"
    | (ok) "\<not> new_fails m (length (heap m)) (grown (length xs))" "\<not> may_throw T (init_call args)"
        "relocatable T xs"
    | (throw) "\<not> new_fails m (length (heap m)) (grown (length xs))" "\<not> may_throw T (init_call args)"
        "\<not> relocatable T xs"
    by blast
  then show ?thesis
  proof cases
    case bad
    have "Emplace T (buffer_f (data_f v), d) args v m = (Throw bad_alloc, v, m)"
      using Emplace_grow_start[OF h0 ne refl, where T = T and args = args and d = d] bad by blast
    then show ?thesis using h by (simp add: preserves_Throw)
  next
    case ctor
    have "Emplace T (buffer_f (data_f v), d) args v m =
        (Throw elem_exn, v, m\<lparr>heap := heap m @ [None], log := log m @ [init_call args]\<rparr>)"
      using Emplace_grow_start[OF h0 ne refl, where T = T and args = args and d = d] ctor d by blast
    moreover have "holds (m\<lparr>heap := heap m @ [None], log := log m @ [init_call args]\<rparr>) v xs 0"
      using h0 by (rule holds_append_block) simp
    ultimately show ?thesis by (simp add: preserves_Throw)
  next
    case ok
    have h1: "holds m v (?us @ ?ws) 0" "?us @ ?ws \<noteq> []"
        "(buffer_f (data_f v), d) = (buffer_f (data_f v), length ?us)"
        "\<not> new_fails m (length (heap m)) (grown (length (?us @ ?ws)))"
      using h0 ne ok(1) d by simp_all
    have r: "relocatable T (?us @ ?ws)" using ok(3) by simp
    let ?m' = "m\<lparr>heap := free (buffer_f (data_f v)) (heap m) @
                         [Some (map Obj (?us @ [init_value args] @ ?ws) @
                                replicate (grown (length (?us @ ?ws)) - Suc (length (?us @ ?ws))) Raw)],
               log := log m @ [init_call args] @ map (reloc_call T) (?us @ ?ws) @
                        map Dtor (map (src_after T) (?us @ ?ws))\<rparr>"
    let ?v' = "\<lparr>data_f = \<lparr>buffer_f = Some (length (heap m)), capacity_f = grown (length (?us @ ?ws))\<rparr>,
               size_f = Suc (length (?us @ ?ws))\<rparr>"
    have E: "Emplace T (buffer_f (data_f v), d) args v m = (Ret (Some (length (heap m)), length ?us), ?v', ?m')"
      using Emplace_grow_cases[OF h1 ok(2)] r by blast
    have "holds ?m' ?v' (?us @ [init_value args] @ ?ws) (grown (length xs) - Suc (length xs))"
      using grown_pos(1)[of "length xs"] d by (simp add: holds_def nth_append)
    then show ?thesis unfolding E by (rule preserves_Ret)
  next
    case throw
    have h1: "holds m v (?us @ ?ws) 0" "?us @ ?ws \<noteq> []"
        "(buffer_f (data_f v), d) = (buffer_f (data_f v), length ?us)"
        "\<not> new_fails m (length (heap m)) (grown (length (?us @ ?ws)))"
      using h0 ne throw(1) d by simp_all
    have r: "\<not> relocatable T (?us @ ?ws)" using throw(3) by simp
    obtain m' ys where "Emplace T (buffer_f (data_f v), d) args v m = (Throw elem_exn, v, m')"
        "holds m' v ys 0"
      using Emplace_grow_cases[OF h1 throw(2)] r by blast
    then show ?thesis by (simp add: preserves_Throw)
  qed
qed

lemma Emplace_in_place_preserves:
  assumes "Vector_inv m v" "d < Size v" "Size v < Capacity v"
  shows "preserves_on_return (Emplace T (buffer_f (data_f v), d) args v m)"
proof -
  obtain xs k where h: "holds m v xs k" using inv_holds[OF assms(1)] by blast
  have s: "Size v = length xs" "Capacity v = length xs + k" using holds_inv[OF h] by simp_all
  have k: "0 < k" using assms(3) s by simp
  have d: "d < length xs" using assms(2) s by simp
  have ne: "xs \<noteq> []" using d by auto
  obtain a where a: "buffer_f (data_f v) = Some a"
    using holds_buffer_lt[OF h, of d] d by auto
  note S = Emplace_in_place_start[OF h k ne refl, where T = T and args = args and d = d]
  show ?thesis
  proof (cases "may_throw T (init_call args) \<or> may_throw T (MoveCtor (last xs))")
    case True
    then show ?thesis using S by (auto simp: preserves_on_return_def)
  next
    case False
    then have nt: "\<not> may_throw T (init_call args)" "\<not> may_throw T (MoveCtor (last xs))" by simp_all
    note E = Emplace_in_place[OF h k d refl nt]
    let ?ok = "list_all (\<lambda>x. \<not> may_throw T (MoveAssign x)) (butlast (drop d xs)) \<and>
          \<not> may_throw T (MoveAssign (init_value args))"
    show ?thesis
    proof (cases ?ok)
      case True
      let ?m' = "m\<lparr>heap := (heap m)[the (buffer_f (data_f v)) :=
                          Some (map Obj (take d xs @ [init_value args] @ drop d xs) @ replicate (k - 1) Raw)],
               log := log m @ [init_call args, MoveCtor (last xs)] @
                        map MoveAssign (rev (butlast (drop d xs))) @
                        [MoveAssign (init_value args), Dtor (moved_from T (init_value args))]\<rparr>"
      have E': "Emplace T (buffer_f (data_f v), d) args v m =
            (Ret (buffer_f (data_f v), d), v\<lparr>size_f := Suc (length xs)\<rparr>, ?m')"
        using E True by blast
      have "holds ?m' (v\<lparr>size_f := Suc (length xs)\<rparr>) (take d xs @ [init_value args] @ drop d xs) (k - 1)"
        using h k d a by (auto simp: holds_def)
      then have "Vector_inv ?m' (v\<lparr>size_f := Suc (length xs)\<rparr>)" using holds_inv by blast
      then show ?thesis unfolding E' by (simp add: preserves_on_return_def)
    next
      case False
      then obtain m' where "Emplace T (buffer_f (data_f v), d) args v m = (Throw elem_exn, v, m')"
        using E by blast
      then show ?thesis by (simp add: preserves_on_return_def)
    qed
  qed
qed

lemma Vector_sized_constructs: "constructs (Vector_sized T n m)"
proof (cases "n = 0")
  case True
  have "holds m \<lparr>data_f = \<lparr>buffer_f = None, capacity_f = 0\<rparr>, size_f = 0\<rparr> [] 0"
    by (simp add: holds_def)
  then show ?thesis unfolding True Vector_sized_zero by (simp add: constructs_def holds_inv)
next
  case False
  then have n: "0 < n" by simp
  show ?thesis
  proof (cases "new_fails m (length (heap m)) n")
    case True
    show ?thesis unfolding Vector_sized_bad_alloc[OF n True] by (simp add: constructs_def)
  next
    case nf: False
    note C = Vector_sized_cases[OF n nf, of T]
    show ?thesis
    proof (cases "may_throw T ValueInit")
      case True
      then obtain m' where "Vector_sized T n m = (Throw elem_exn, m')" using C by blast
      then show ?thesis by (simp add: constructs_def)
    next
      case False
      have "holds (m\<lparr>heap := heap m @ [Some (map Obj (replicate n (default_value T)))],
                log := log m @ replicate n ValueInit\<rparr>)
         \<lparr>data_f = \<lparr>buffer_f = Some (length (heap m)), capacity_f = n\<rparr>, size_f = n\<rparr>
         (replicate n (default_value T)) 0"
        using n by (simp add: holds_def)
      then show ?thesis using C False by (simp add: constructs_def holds_inv)
    qed
  qed
qed

lemma Vector_copy_constructs:
  assumes "Vector_inv m v"
  shows "constructs (Vector_copy T v m) \<and> Vector_inv (snd (Vector_copy T v m)) v"
proof -
  obtain xs k where h: "holds m v xs k" using inv_holds[OF assms(1)] by blast
  show ?thesis
  proof (cases "xs = []")
    case True
    have "holds m \<lparr>data_f = \<lparr>buffer_f = None, capacity_f = 0\<rparr>, size_f = 0\<rparr> [] 0"
      by (simp add: holds_def)
    then show ?thesis using Vector_copy_empty[of m v k T] h True assms
      by (simp add: constructs_def holds_inv)
  next
    case ne: False
    show ?thesis
    proof (cases "new_fails m (length (heap m)) (length xs)")
      case True
      show ?thesis unfolding Vector_copy_bad_alloc[OF h ne True] using assms
        by (simp add: constructs_def)
    next
      case nf: False
      note C = Vector_copy_cases[OF h ne nf, of T]
      show ?thesis
      proof (cases "list_all (copy_ok T) xs")
        case True
        let ?m' = "m\<lparr>heap := heap m @ [Some (map Obj xs)], log := log m @ map CopyCtor xs\<rparr>"
        let ?v' = "\<lparr>data_f = \<lparr>buffer_f = Some (length (heap m)), capacity_f = length xs\<rparr>,
                   size_f = length xs\<rparr>"
        have E: "Vector_copy T v m = (Ret ?v', ?m')" using C True by blast
        have "holds ?m' ?v' xs 0" using ne by (simp add: holds_def)
        moreover have "holds ?m' v xs k" using h by (rule holds_append_block) simp
        ultimately show ?thesis unfolding E by (simp add: constructs_def holds_inv)
      next
        case False
        then obtain m' where E: "Vector_copy T v m = (Throw elem_exn, m')" "heap m' = heap m @ [None]"
          using C by blast
        have "holds m' v xs k" using h E(2) by (rule holds_append_block)
        then show ?thesis unfolding E(1) by (simp add: constructs_def holds_inv)
      qed
    qed
  qed
qed

lemma Vector_inv_empty: "Vector_inv m \<lparr>data_f = \<lparr>buffer_f = None, capacity_f = 0\<rparr>, size_f = 0\<rparr>"
proof -
  have "holds m \<lparr>data_f = \<lparr>buffer_f = None, capacity_f = 0\<rparr>, size_f = 0\<rparr> [] 0"
    by (simp add: holds_def)
  then show ?thesis by (simp add: holds_inv)
qed

lemma Vector_default_inv: "Vector_inv m Vector_default"
  using Vector_inv_empty by (simp add: Vector_default_def RawMemory_default_def)

lemma Vector_inv_eta: "Vector_inv m v \<Longrightarrow> Vector_inv m \<lparr>data_f = \<lparr>buffer_f = buffer_f (data_f v),
    capacity_f = capacity_f (data_f v)\<rparr>, size_f = size_f v\<rparr>"
  by (simp add: RawMemory_eta Vector_eta)

lemma Vector_move_inv:
  assumes "Vector_inv m v"
  shows "Vector_inv m (fst (Vector_move v)) \<and> Vector_inv m (snd (Vector_move v))"
  using Vector_inv_eta[OF assms] Vector_inv_empty[of m]
  by (simp add: Vector_move_def RawMemory_move_ctor_def RawMemory_Swap_def RawMemory_default_def)

lemma Vector_Swap_inv:
  assumes "Vector_inv m v" "Vector_inv m w"
  shows "Vector_inv m (fst (Vector_Swap v w)) \<and> Vector_inv m (snd (Vector_Swap v w))"
  using Vector_inv_eta[OF assms(1)] Vector_inv_eta[OF assms(2)]
  by (simp add: Vector_Swap_def RawMemory_Swap_def)

lemma RawMemory_ops_inv:
  "RawMemory_inv RawMemory_default"
  "case RawMemory_ctor n m of
     (Ret r, m') \<Rightarrow> RawMemory_inv r | (Throw e, m') \<Rightarrow> True | (UB, m') \<Rightarrow> False
   | (Abort, m') \<Rightarrow> False"
  "RawMemory_inv r \<Longrightarrow> RawMemory_inv s \<Longrightarrow>
     RawMemory_inv (fst (RawMemory_Swap r s)) \<and> RawMemory_inv (snd (RawMemory_Swap r s))"
  "RawMemory_inv r \<Longrightarrow>
     RawMemory_inv (fst (RawMemory_move_ctor r)) \<and> RawMemory_inv (snd (RawMemory_move_ctor r))"
  by (simp_all add: RawMemory_inv_def RawMemory_default_def RawMemory_ctor_eq RawMemory_Swap_def
        RawMemory_move_ctor_def)

lemma Vector_assign_outcome:
  assumes "Vector_inv m dst" "Vector_inv m src" "separate dst src"
  shows "\<exists>r dst' m'. Vector_assign T (Other src) dst m = (r, dst', m') \<and> r \<noteq> UB \<and> r \<noteq> Abort \<and>
           Vector_inv m' src \<and> elems m' src = elems m src \<and>
           (r = Ret () \<longrightarrow>
              Vector_inv m' dst' \<and> elems m' dst' = elems m src \<and> Size dst' = Size src \<and>
              log m' = log m @ assign_log (elems m dst) (Capacity dst - Size dst) (elems m src)) \<and>
           (r \<noteq> Ret () \<longrightarrow> dst' = dst \<and> Vector_inv m' dst) \<and>
           (assign_succeeds T m (elems m dst) (Capacity dst - Size dst) (elems m src) \<longrightarrow> r = Ret ())"
proof -
  obtain xs k where hd: "holds m dst xs k" using inv_holds[OF assms(1)] by blast
  obtain ys l where hs: "holds m src ys l" using inv_holds[OF assms(2)] by blast
  have e: "elems m dst = xs" "elems m src = ys" "Capacity dst - Size dst = k" "Size src = length ys"
    using holds_inv[OF hd] holds_inv[OF hs] by simp_all
  consider (rebuild) "length xs + k < length ys"
    | (grow) "length xs \<le> length ys" "length ys \<le> length xs + k"
    | (shrink) "length ys < length xs" by linarith
  then have "\<exists>r dst' m'. Vector_assign T (Other src) dst m = (r, dst', m') \<and> r \<noteq> UB \<and> r \<noteq> Abort \<and>
           Vector_inv m' src \<and> elems m' src = ys \<and>
           (r = Ret () \<longrightarrow>
              Vector_inv m' dst' \<and> elems m' dst' = ys \<and> Size dst' = length ys \<and>
              log m' = log m @ assign_log xs k ys) \<and>
           (r \<noteq> Ret () \<longrightarrow> dst' = dst \<and> Vector_inv m' dst) \<and>
           (assign_succeeds T m xs k ys \<longrightarrow> r = Ret ())"
  proof cases
    case rebuild
    obtain r dst' m' where a: "Vector_assign T (Other src) dst m = (r, dst', m')"
       "holds m' src ys l"
       "case r of
              Ret u \<Rightarrow> holds m' dst' ys 0 \<and> log m' = log m @ map CopyCtor ys @ map Dtor xs
            | Throw e \<Rightarrow> dst' = dst \<and> holds m' dst xs k
            | UB \<Rightarrow> False
            | Abort \<Rightarrow> False"
       "\<not> new_fails m (length (heap m)) (length ys) \<and> list_all (copy_ok T) ys \<longrightarrow> r = Ret ()"
      using Vector_assign_rebuild[OF hd hs assms(3) rebuild, of T] by blast
    show ?thesis
    proof (cases r)
      case (Ret u)
      then show ?thesis using a rebuild holds_inv[of m' dst' ys 0] holds_inv[OF a(2)]
        by (simp add: assign_log_def assign_succeeds_def)
    next
      case (Throw x)
      then show ?thesis using a rebuild holds_inv[of m' dst xs k] holds_inv[OF a(2)]
        by (auto simp: assign_log_def assign_succeeds_def)
    next
      case UB
      then show ?thesis using a(3) by simp
    next
      case Abort
      then show ?thesis using a(3) by simp
    qed
  next
    case grow
    obtain r dst' m' where a: "Vector_assign T (Other src) dst m = (r, dst', m')"
       "holds m' src ys l"
       "case r of
              Ret u \<Rightarrow> holds m' dst' ys (length xs + k - length ys) \<and>
                 log m' = log m @ map CopyAssign (take (length xs) ys) @ map CopyCtor (drop (length xs) ys)
            | Throw e \<Rightarrow> dst' = dst \<and> (\<exists>zs. length zs = length xs \<and> holds m' dst zs k)
            | UB \<Rightarrow> False
            | Abort \<Rightarrow> False"
       "list_all (assign_ok T) (take (length xs) ys) \<and> list_all (copy_ok T) (drop (length xs) ys)
              \<longrightarrow> r = Ret ()"
      using Vector_assign_grow_inplace[OF hd hs assms(3) grow, of T] by blast
    show ?thesis
    proof (cases r)
      case (Ret u)
      then show ?thesis using a grow holds_inv[of m' dst' ys "length xs + k - length ys"] holds_inv[OF a(2)]
        by (simp add: assign_log_def assign_succeeds_def)
    next
      case (Throw x)
      then obtain zs where "holds m' dst zs k" "dst' = dst" using a(3) by auto
      then show ?thesis using Throw a grow holds_inv[of m' dst zs k] holds_inv[OF a(2)]
        by (auto simp: assign_log_def assign_succeeds_def)
    next
      case UB
      then show ?thesis using a(3) by simp
    next
      case Abort
      then show ?thesis using a(3) by simp
    qed
  next
    case shrink
    obtain r dst' m' where a: "Vector_assign T (Other src) dst m = (r, dst', m')"
       "holds m' src ys l"
       "case r of
              Ret u \<Rightarrow> holds m' dst' ys (length xs + k - length ys) \<and>
                 log m' = log m @ map CopyAssign ys @ map Dtor (drop (length ys) xs)
            | Throw e \<Rightarrow> dst' = dst \<and> (\<exists>zs. length zs = length xs \<and> holds m' dst zs k)
            | UB \<Rightarrow> False
            | Abort \<Rightarrow> False"
       "list_all (assign_ok T) ys \<longrightarrow> r = Ret ()"
      using Vector_assign_shrink[OF hd hs assms(3) shrink, of T] by blast
    show ?thesis
    proof (cases r)
      case (Ret u)
      then show ?thesis using a shrink holds_inv[of m' dst' ys "length xs + k - length ys"] holds_inv[OF a(2)]
        by (simp add: assign_log_def assign_succeeds_def)
    next
      case (Throw x)
      then obtain zs where "holds m' dst zs k" "dst' = dst" using a(3) by auto
      then show ?thesis using Throw a shrink holds_inv[of m' dst zs k] holds_inv[OF a(2)]
        by (auto simp: assign_log_def assign_succeeds_def)
    next
      case UB
      then show ?thesis using a(3) by simp
    next
      case Abort
      then show ?thesis using a(3) by simp
    qed
  qed
  then show ?thesis unfolding e .
qed

lemma Vector_assign_summary:
  assumes "Vector_inv m dst" "Vector_inv m src" "separate dst src"
  shows "\<exists>r dst' m'. Vector_assign T (Other src) dst m = (r, dst', m') \<and> r \<noteq> UB \<and>
           Vector_inv m' src \<and> elems m' src = elems m src \<and>
           (r = Ret () \<longrightarrow>
              Vector_inv m' dst' \<and> elems m' dst' = elems m src \<and> Size dst' = Size src \<and>
              log m' = log m @ assign_log (elems m dst) (Capacity dst - Size dst) (elems m src)) \<and>
           (r \<noteq> Ret () \<longrightarrow> dst' = dst \<and> Vector_inv m' dst) \<and>
           (assign_succeeds T m (elems m dst) (Capacity dst - Size dst) (elems m src) \<longrightarrow> r = Ret ())"
  using Vector_assign_outcome[OF assms, of T] by blast

lemma Vector_assign_preserves:
  assumes "Vector_inv m v" "Vector_inv m w" "separate v w"
  shows "preserves (Vector_assign T (Other w) v m) \<and>
         Vector_inv (snd (snd (Vector_assign T (Other w) v m))) w"
proof -
  obtain r v' m' where a: "Vector_assign T (Other w) v m = (r, v', m')" "r \<noteq> UB"
      "Vector_inv m' w" "r = Ret () \<longrightarrow> Vector_inv m' v'" "r \<noteq> Ret () \<longrightarrow> v' = v \<and> Vector_inv m' v"
      "r \<noteq> Abort"
    using Vector_assign_outcome[OF assms, of T] by blast
  show ?thesis unfolding a(1) using a(2-6) by (cases r) (auto simp: preserves_def)
qed

lemma Vector_assign_self_preserves:
  "Vector_inv m v \<Longrightarrow> preserves (Vector_assign T This v m)"
  by (simp add: Vector_assign_def preserves_def)



lemma Emplace_ok:
  assumes "holds m v xs k" "d \<le> length xs" "xs = [] \<or> k = 0 \<or> d < length xs"
    "\<not> may_throw T (init_call args)"
    "k = 0 \<longrightarrow> \<not> new_fails m (length (heap m)) (grown (length xs)) \<and> relocatable T xs"
    "0 < k \<and> xs \<noteq> [] \<longrightarrow>
       \<not> may_throw T (MoveCtor (last xs)) \<and>
       list_all (\<lambda>x. \<not> may_throw T (MoveAssign x)) (butlast (drop d xs)) \<and>
       \<not> may_throw T (MoveAssign (init_value args))"
  shows "\<exists>v' m' k'. Emplace T (buffer_f (data_f v), d) args v m = (Ret (buffer_f (data_f v'), d), v', m') \<and>
           holds m' v' (take d xs @ [init_value args] @ drop d xs) k' \<and>
           new_fails m' = new_fails m \<and>
           Suc (length xs) + k' = (if k = 0 then grown (length xs) else length xs + k)"
proof -
  consider (grow) "k = 0 \<and> xs \<noteq> []" | (empty_grow) "k = 0 \<and> xs = []" | (empty_room) "0 < k \<and> xs = []"
    | (in_place) "0 < k \<and> xs \<noteq> []" by (cases "k = 0"; cases "xs = []"; simp)
  then show ?thesis
  proof cases
    case grow
    let ?us = "take d xs" and ?ws = "drop d xs"
    have h1: "holds m v (?us @ ?ws) 0" "?us @ ?ws \<noteq> []"
        "(buffer_f (data_f v), d) = (buffer_f (data_f v), length ?us)"
        "\<not> new_fails m (length (heap m)) (grown (length (?us @ ?ws)))"
      using assms(1,2,5) grow by simp_all
    have r: "relocatable T (?us @ ?ws)" using assms(5) grow by simp
    let ?m' = "m\<lparr>heap := free (buffer_f (data_f v)) (heap m) @
                         [Some (map Obj (?us @ [init_value args] @ ?ws) @
                                replicate (grown (length (?us @ ?ws)) - Suc (length (?us @ ?ws))) Raw)],
               log := log m @ [init_call args] @ map (reloc_call T) (?us @ ?ws) @
                        map Dtor (map (src_after T) (?us @ ?ws))\<rparr>"
    let ?v' = "\<lparr>data_f = \<lparr>buffer_f = Some (length (heap m)), capacity_f = grown (length (?us @ ?ws))\<rparr>,
               size_f = Suc (length (?us @ ?ws))\<rparr>"
    have E: "Emplace T (buffer_f (data_f v), d) args v m = (Ret (Some (length (heap m)), length ?us), ?v', ?m')"
      using Emplace_grow_cases[OF h1 assms(4)] r by blast
    have "holds ?m' ?v' (?us @ [init_value args] @ ?ws) (grown (length xs) - Suc (length xs))"
      using grown_pos(1)[of "length xs"] assms(2) by (simp add: holds_def nth_append)
    moreover have "Emplace T (buffer_f (data_f v), d) args v m = (Ret (buffer_f (data_f ?v'), d), ?v', ?m')"
      using E assms(2) by simp
    moreover have "new_fails ?m' = new_fails m" by simp
    moreover have "Suc (length xs) + (grown (length xs) - Suc (length xs)) =
        (if k = 0 then grown (length xs) else length xs + k)"
      using grown_pos(1)[of "length xs"] grow by simp
    ultimately show ?thesis by blast
  next
    case empty_grow
    then have h0: "holds m v [] 0" and d0: "d = 0" using assms(1,2) by simp_all
    have s: "size_f v = 0" using h0 by (simp add: holds_def)
    have nf: "\<not> new_fails m (length (heap m)) (grown (length ([]::'a list)))"
      using assms(5) empty_grow by simp
    have r: "relocatable T []" by (simp add: relocatable_def)
    let ?m' = "m\<lparr>heap := free (buffer_f (data_f v)) (heap m) @
                         [Some (map Obj ([] @ [init_value args]) @
                                replicate (grown (length ([]::'a list)) - Suc (length ([]::'a list))) Raw)],
               log := log m @ [init_call args] @ map (reloc_call T) [] @
                        map Dtor (map (src_after T) [])\<rparr>"
    let ?v' = "\<lparr>data_f = \<lparr>buffer_f = Some (length (heap m)), capacity_f = grown (length ([]::'a list))\<rparr>,
               size_f = Suc (length ([]::'a list))\<rparr>"
    have EB: "EmplaceBack T args v m = (Ret (Some (length (heap m)), length ([]::'a list)), ?v', ?m')"
      using EmplaceBack_grow_cases[OF h0 nf assms(4)] r by blast
    have E: "Emplace T (buffer_f (data_f v), d) args v m = (Ret (buffer_f (data_f ?v'), d), ?v', ?m')"
      unfolding Emplace_empty[OF s] EB using d0
      by (simp add: Vector_end_def GetAddress_def ptr_add_def)
    have "holds ?m' ?v' (take d xs @ [init_value args] @ drop d xs) 0"
      using empty_grow by (simp add: holds_def grown_def nth_append)
    moreover have "new_fails ?m' = new_fails m" by simp
    moreover have "Suc (length xs) + 0 = (if k = 0 then grown (length xs) else length xs + k)"
      using empty_grow by (simp add: grown_def)
    ultimately show ?thesis using E by blast
  next
    case empty_room
    then have h0: "holds m v [] k" and d0: "d = 0" and k: "0 < k" using assms(1,2) by simp_all
    have s: "size_f v = 0" using h0 by (simp add: holds_def)
    obtain a where a: "buffer_f (data_f v) = Some a" using holds_buffer[OF h0] k by auto
    let ?m' = "m\<lparr>heap := (heap m)[the (buffer_f (data_f v)) :=
                        Some (map Obj ([] @ [init_value args]) @ replicate (k - 1) Raw)],
              log := log m @ [init_call args]\<rparr>"
    let ?v' = "v\<lparr>size_f := Suc (length ([]::'a list))\<rparr>"
    have EB: "EmplaceBack T args v m = (Ret (buffer_f (data_f v), length ([]::'a list)), ?v', ?m')"
      using EmplaceBack_room[OF h0 k, of T args] assms(4) by simp
    have E: "Emplace T (buffer_f (data_f v), d) args v m = (Ret (buffer_f (data_f ?v'), d), ?v', ?m')"
      unfolding Emplace_empty[OF s] EB using d0
      by (simp add: Vector_end_def GetAddress_def ptr_add_def)
    have "holds ?m' ?v' (take d xs @ [init_value args] @ drop d xs) (k - 1)"
      using empty_room h0 a k by (auto simp: holds_def)
    moreover have "new_fails ?m' = new_fails m" by simp
    moreover have "Suc (length xs) + (k - 1) = (if k = 0 then grown (length xs) else length xs + k)"
      using empty_room by simp
    ultimately show ?thesis using E by blast
  next
    case in_place
    then have k: "0 < k" and d: "d < length xs" using assms(3) by auto
    obtain a where a: "buffer_f (data_f v) = Some a"
      using holds_buffer_lt[OF assms(1), of d] d by auto
    have nt: "\<not> may_throw T (MoveCtor (last xs))" using assms(6) in_place by blast
    let ?m' = "m\<lparr>heap := (heap m)[the (buffer_f (data_f v)) :=
                          Some (map Obj (take d xs @ [init_value args] @ drop d xs) @ replicate (k - 1) Raw)],
               log := log m @ [init_call args, MoveCtor (last xs)] @
                        map MoveAssign (rev (butlast (drop d xs))) @
                        [MoveAssign (init_value args), Dtor (moved_from T (init_value args))]\<rparr>"
    let ?v' = "v\<lparr>size_f := Suc (length xs)\<rparr>"
    have "Emplace T (buffer_f (data_f v), d) args v m = (Ret (buffer_f (data_f v), d), ?v', ?m')"
      using Emplace_in_place[OF assms(1) k d refl assms(4) nt] assms(6) in_place by blast
    then have E: "Emplace T (buffer_f (data_f v), d) args v m = (Ret (buffer_f (data_f ?v'), d), ?v', ?m')"
      by simp
    have "holds ?m' ?v' (take d xs @ [init_value args] @ drop d xs) (k - 1)"
      using assms(1) k d a by (auto simp: holds_def)
    moreover have "new_fails ?m' = new_fails m" by simp
    moreover have "Suc (length xs) + (k - 1) = (if k = 0 then grown (length xs) else length xs + k)"
      using in_place by simp
    ultimately show ?thesis using E by blast
  qed
qed

lemma Erase_ok:
  assumes "holds m v xs k" "d < length xs"
    "list_all (\<lambda>x. \<not> may_throw T (MoveAssign x)) (drop (Suc d) xs)"
    "Suc d < length xs + k"
  shows "\<exists>v' m'. Erase T (buffer_f (data_f v), d) v m = (Ret (buffer_f (data_f v), d), v', m') \<and>
           holds m' v' (take d xs @ drop (Suc d) xs) (Suc k) \<and> data_f v' = data_f v"
proof -
  obtain a where a: "buffer_f (data_f v) = Some a"
    using holds_buffer_lt[OF assms(1), of d] assms(2) by auto
  let ?m' = "m\<lparr>heap := (heap m)[the (buffer_f (data_f v)) :=
                          Some (map Obj (take d xs @ drop (Suc d) xs) @ replicate (Suc k) Raw)],
               log := log m @ map MoveAssign (drop (Suc d) xs) @
                        [Dtor (if Suc d = length xs then xs ! d else moved_from T (last xs))]\<rparr>"
  let ?v' = "v\<lparr>size_f := length xs - 1\<rparr>"
  have E: "Erase T (buffer_f (data_f v), d) v m = (Ret (buffer_f (data_f v), d), ?v', ?m')"
    using Erase_cases[OF assms(1,2) refl assms(4), of T] assms(3) by blast
  have "holds ?m' ?v' (take d xs @ drop (Suc d) xs) (Suc k)"
    using assms(1,2) a by (auto simp: holds_def)
  then show ?thesis using E by auto
qed

text \<open>
  \<^verbatim>\<open>Insert\<close> or \<^verbatim>\<open>Emplace\<close> followed by \<^verbatim>\<open>Erase\<close> at the returned position, for every position
  except \<^verbatim>\<open>end()\<close> of a non-empty vector with spare capacity, when nothing throws and the
  new element is not the last slot of the block after the insertion (the last hypothesis:
  there the assertion of \<^verbatim>\<open>RawMemory::operator[]\<close> stops \<^verbatim>\<open>Erase\<close>): the insertion returns the
  position of the new element, which sits between the elements before and behind the
  position, and the erasure returns the position again and leaves the former elements
  and the former size.
\<close>

lemma Insert_Erase_round_trip:
  assumes "Vector_inv m v" "d \<le> Size v" "Size v = 0 \<or> Size v = Capacity v \<or> d < Size v"
    "\<not> may_throw T (init_call args)"
    "Size v = Capacity v \<longrightarrow>
       \<not> new_fails m (length (heap m)) (grown (Size v)) \<and> relocatable T (elems m v)"
    "Size v < Capacity v \<and> 0 < Size v \<longrightarrow>
       \<not> may_throw T (MoveCtor (last (elems m v))) \<and>
       list_all (\<lambda>x. \<not> may_throw T (MoveAssign x)) (butlast (drop d (elems m v))) \<and>
       \<not> may_throw T (MoveAssign (init_value args))"
    "list_all (\<lambda>x. \<not> may_throw T (MoveAssign x)) (drop d (elems m v))"
    "Suc d < (if Size v = Capacity v then grown (Size v) else Capacity v)"
  shows "\<exists>p v1 m1 v2 m2.
           Emplace T (ptr_add (Vector_begin v) d) args v m = (Ret p, v1, m1) \<and>
           p = ptr_add (Vector_begin v1) d \<and>
           elems m1 v1 = take d (elems m v) @ [init_value args] @ drop d (elems m v) \<and>
           Size v1 = Suc (Size v) \<and> Vector_inv m1 v1 \<and>
           Erase T p v1 m1 = (Ret p, v2, m2) \<and>
           elems m2 v2 = elems m v \<and> Size v2 = Size v \<and> Vector_inv m2 v2"
proof -
  obtain xs k where h: "holds m v xs k" using inv_holds[OF assms(1)] by blast
  have e: "elems m v = xs" "Capacity v = length xs + k" "Size v = length xs"
    using holds_inv[OF h] by simp_all
  have p: "\<And>v. ptr_add (Vector_begin v) d = (buffer_f (data_f v), d)"
    by (simp add: ptr_add_def Vector_begin_def GetAddress_def)
  let ?x = "init_value args"
  let ?zs = "take d xs @ [?x] @ drop d xs"
  have c: "d \<le> length xs" "xs = [] \<or> k = 0 \<or> d < length xs"
    "k = 0 \<longrightarrow> \<not> new_fails m (length (heap m)) (grown (length xs)) \<and> relocatable T xs"
    "0 < k \<and> xs \<noteq> [] \<longrightarrow>
       \<not> may_throw T (MoveCtor (last xs)) \<and>
       list_all (\<lambda>x. \<not> may_throw T (MoveAssign x)) (butlast (drop d xs)) \<and>
       \<not> may_throw T (MoveAssign ?x)"
    using assms(2,3,5,6) unfolding e by auto
  obtain v1 m1 k1 where 1: "Emplace T (buffer_f (data_f v), d) args v m = (Ret (buffer_f (data_f v1), d), v1, m1)"
      "holds m1 v1 ?zs k1"
      "Suc (length xs) + k1 = (if k = 0 then grown (length xs) else length xs + k)"
    using Emplace_ok[OF h c(1,2) assms(4) c(3,4)] by blast
  have room: "Suc d < length ?zs + k1" using assms(8) 1(3) c(1) unfolding e by simp
  have dz: "d < length ?zs" using c(1) by simp
  have z: "take d ?zs @ drop (Suc d) ?zs = xs" "drop (Suc d) ?zs = drop d xs" using c(1) by simp_all
  have ok: "list_all (\<lambda>x. \<not> may_throw T (MoveAssign x)) (drop (Suc d) ?zs)"
    using assms(7) unfolding e z(2) .
  obtain v2 m2 where 2: "Erase T (buffer_f (data_f v1), d) v1 m1 = (Ret (buffer_f (data_f v1), d), v2, m2)"
      "holds m2 v2 (take d ?zs @ drop (Suc d) ?zs) (Suc k1)"
    using Erase_ok[OF 1(2) dz ok room] by blast
  have h2: "holds m2 v2 xs (Suc k1)" using 2(2) unfolding z(1) .
  have "elems m1 v1 = ?zs" "Size v1 = Suc (length xs)" "Vector_inv m1 v1"
    using holds_inv[OF 1(2)] c(1) by simp_all
  moreover have "elems m2 v2 = xs" "Size v2 = length xs" "Vector_inv m2 v2"
    using holds_inv[OF h2] by simp_all
  ultimately show ?thesis unfolding e p using 1(1) 2(1) by blast
qed

text \<open>
  The shrinking operations work in place. For a vector that satisfies its invariant,
  \<^verbatim>\<open>PopBack\<close> on a non-empty vector, \<^verbatim>\<open>Resize(n)\<close> with \<open>n\<close> at most the size, and \<^verbatim>\<open>Erase\<close> at
  a position \<open>d\<close> below the size with \<open>d + 1\<close> below the capacity keep the member \<^verbatim>\<open>data_\<close> as
  it is (same handle, same capacity), allocate no block, keep the invariant and leave
  every slot below the affected position as it was. \<^verbatim>\<open>PopBack\<close> and \<^verbatim>\<open>Resize\<close> always return
  and only destroy; \<^verbatim>\<open>Erase\<close> returns the position after move-assigning the elements behind
  it and destroying one object, or passes on the exception of a move assignment. \<^verbatim>\<open>Erase\<close>
  of the last element of a full vector stops at the assertion of
  \<^verbatim>\<open>RawMemory::operator[]\<close>, in \<^verbatim>\<open>&data_[iter_distance+1]\<close>, with nothing changed.
\<close>

lemma shrinking_in_place:
  assumes "Vector_inv m v"
  shows "(0 < Size v \<longrightarrow>
           (\<exists>v' m'. PopBack v m = (Ret (), v', m') \<and>
              data_f v' = data_f v \<and> length (heap m') = length (heap m) \<and>
              Size v' = Size v - 1 \<and> Vector_inv m' v' \<and>
              take (Size v - 1) (slots m' v') = take (Size v - 1) (slots m v) \<and>
              log m' = log m @ [Dtor (last (elems m v))]))
   \<and> (n \<le> Size v \<longrightarrow>
           (\<exists>v' m'. Resize T n v m = (Ret (), v', m') \<and>
              data_f v' = data_f v \<and> length (heap m') = length (heap m) \<and>
              Size v' = n \<and> Vector_inv m' v' \<and>
              take n (slots m' v') = take n (slots m v) \<and>
              log m' = log m @ map Dtor (drop n (elems m v))))
   \<and> (d < Size v \<and> Suc d < Capacity v \<longrightarrow>
           (\<exists>r v' m'. Erase T (buffer_f (data_f v), d) v m = (r, v', m') \<and> r \<noteq> UB \<and>
              data_f v' = data_f v \<and> length (heap m') = length (heap m) \<and>
              Vector_inv m' v' \<and>
              take d (slots m' v') = take d (slots m v) \<and>
              (r = Ret (buffer_f (data_f v), d) \<longrightarrow> Size v' = Size v - 1 \<and>
                 (\<exists>x. log m' = log m @ map MoveAssign (drop (Suc d) (elems m v)) @ [Dtor x]))))
   \<and> (d < Size v \<and> Capacity v \<le> Suc d \<longrightarrow>
           Erase T (buffer_f (data_f v), d) v m = (Abort, v, m))"
proof -
  obtain xs k where h: "holds m v xs k" using inv_holds[OF assms] by blast
  have e: "elems m v = xs" using holds_inv[OF h] by simp
  have s: "Size v = length xs" "size_f v = length xs" using holds_inv[OF h] holds_size[OF h] by simp_all
  have sl: "slots m v = map Obj xs @ replicate k Raw" using holds_slots[OF h] .
  have 1: "0 < Size v \<longrightarrow>
           (\<exists>v' m'. PopBack v m = (Ret (), v', m') \<and>
              data_f v' = data_f v \<and> length (heap m') = length (heap m) \<and>
              Size v' = Size v - 1 \<and> Vector_inv m' v' \<and>
              take (Size v - 1) (slots m' v') = take (Size v - 1) (slots m v) \<and>
              log m' = log m @ [Dtor (last xs)])"
  proof
    assume "0 < Size v"
    then have ne: "xs \<noteq> []" using s by auto
    obtain a where a: "buffer_f (data_f v) = Some a" "a < length (heap m)"
      using holds_buffer[OF h] ne by auto
    let ?v' = "v\<lparr>size_f := length xs - 1\<rparr>"
    let ?m' = "m\<lparr>heap := (heap m)[the (buffer_f (data_f v)) :=
                   Some (map Obj (butlast xs) @ replicate (Suc k) Raw)],
        log := log m @ [Dtor (last xs)]\<rparr>"
    have p: "PopBack v m = (Ret (), ?v', ?m')" using PopBack_ok[OF h ne] .
    have h': "holds ?m' ?v' (butlast xs) (Suc k)"
      using h a ne by (simp add: holds_def)
    show "\<exists>v' m'. PopBack v m = (Ret (), v', m') \<and>
              data_f v' = data_f v \<and> length (heap m') = length (heap m) \<and>
              Size v' = Size v - 1 \<and> Vector_inv m' v' \<and>
              take (Size v - 1) (slots m' v') = take (Size v - 1) (slots m v) \<and>
              log m' = log m @ [Dtor (last xs)]"
      using p holds_inv[OF h'] holds_slots[OF h'] sl s ne
      by (simp add: butlast_conv_take take_map)
  qed
  have 2: "n \<le> Size v \<longrightarrow>
           (\<exists>v' m'. Resize T n v m = (Ret (), v', m') \<and>
              data_f v' = data_f v \<and> length (heap m') = length (heap m) \<and>
              Size v' = n \<and> Vector_inv m' v' \<and>
              take n (slots m' v') = take n (slots m v) \<and>
              log m' = log m @ map Dtor (drop n xs))"
  proof
    assume le: "n \<le> Size v"
    show "\<exists>v' m'. Resize T n v m = (Ret (), v', m') \<and>
              data_f v' = data_f v \<and> length (heap m') = length (heap m) \<and>
              Size v' = n \<and> Vector_inv m' v' \<and>
              take n (slots m' v') = take n (slots m v) \<and>
              log m' = log m @ map Dtor (drop n xs)"
    proof (cases "n = length xs")
      case True
      then show ?thesis using Resize_same[OF h, of T] assms s by simp
    next
      case False
      then have lt: "n < length xs" using le s by simp
      then have ne: "xs \<noteq> []" by auto
      obtain a where a: "buffer_f (data_f v) = Some a" "a < length (heap m)"
        using holds_buffer[OF h] ne by auto
      let ?v' = "v\<lparr>size_f := n\<rparr>"
      let ?m' = "m\<lparr>heap := (heap m)[the (buffer_f (data_f v)) :=
                   Some (map Obj (take n xs) @ replicate (k + (length xs - n)) Raw)],
                 log := log m @ map Dtor (drop n xs)\<rparr>"
      have p: "Resize T n v m = (Ret (), ?v', ?m')" using Resize_shrink[OF h lt] .
      have h': "holds ?m' ?v' (take n xs) (k + (length xs - n))"
        using h a lt ne by (simp add: holds_def)
      show ?thesis
        using p holds_inv[OF h'] holds_slots[OF h'] sl s lt
        by (simp add: take_map)
    qed
  qed
  have 3: "d < Size v \<and> Suc d < Capacity v \<longrightarrow>
           (\<exists>r v' m'. Erase T (buffer_f (data_f v), d) v m = (r, v', m') \<and> r \<noteq> UB \<and>
              data_f v' = data_f v \<and> length (heap m') = length (heap m) \<and>
              Vector_inv m' v' \<and>
              take d (slots m' v') = take d (slots m v) \<and>
              (r = Ret (buffer_f (data_f v), d) \<longrightarrow> Size v' = Size v - 1 \<and>
                 (\<exists>x. log m' = log m @ map MoveAssign (drop (Suc d) xs) @ [Dtor x])))"
  proof
    assume dd: "d < Size v \<and> Suc d < Capacity v"
    then have lt: "d < length xs" using s by simp
    then have ne: "xs \<noteq> []" by auto
    have room: "Suc d < length xs + k" using dd holds_inv[OF h] by simp
    obtain a where a: "buffer_f (data_f v) = Some a" "a < length (heap m)"
      using holds_buffer[OF h] ne by auto
    note E = Erase_cases[OF h lt refl room, of T]
    show "\<exists>r v' m'. Erase T (buffer_f (data_f v), d) v m = (r, v', m') \<and> r \<noteq> UB \<and>
              data_f v' = data_f v \<and> length (heap m') = length (heap m) \<and>
              Vector_inv m' v' \<and>
              take d (slots m' v') = take d (slots m v) \<and>
              (r = Ret (buffer_f (data_f v), d) \<longrightarrow> Size v' = Size v - 1 \<and>
                 (\<exists>x. log m' = log m @ map MoveAssign (drop (Suc d) xs) @ [Dtor x]))"
    proof (cases "list_all (\<lambda>x. \<not> may_throw T (MoveAssign x)) (drop (Suc d) xs)")
      case True
      let ?v' = "v\<lparr>size_f := length xs - 1\<rparr>"
      let ?m' = "m\<lparr>heap := (heap m)[the (buffer_f (data_f v)) :=
                          Some (map Obj (take d xs @ drop (Suc d) xs) @ replicate (Suc k) Raw)],
               log := log m @ map MoveAssign (drop (Suc d) xs) @
                        [Dtor (if Suc d = length xs then xs ! d else moved_from T (last xs))]\<rparr>"
      have p: "Erase T (buffer_f (data_f v), d) v m = (Ret (buffer_f (data_f v), d), ?v', ?m')"
        using E True by simp
      have h': "holds ?m' ?v' (take d xs @ drop (Suc d) xs) (Suc k)"
        using h a lt ne by (simp add: holds_def)
      show ?thesis
        using p holds_inv[OF h'] holds_slots[OF h'] sl s lt
        by (simp add: take_map)
    next
      case False
      then obtain m' zs where f: "Erase T (buffer_f (data_f v), d) v m = (Throw elem_exn, v, m')"
         "length zs = length xs" "take d zs = take d xs" "length (heap m') = length (heap m)"
         "holds m' v zs k"
        using E by blast
      show ?thesis
        using f(1,4) holds_inv[OF f(5)] holds_slots[OF f(5)] sl s lt f(2,3)
        by (simp add: take_map)
    qed
  qed
  have 4: "d < Size v \<and> Capacity v \<le> Suc d \<longrightarrow>
           Erase T (buffer_f (data_f v), d) v m = (Abort, v, m)"
    using Erase_abort[OF h _ refl, of d T] holds_inv[OF h] by simp
  show ?thesis unfolding e using 1 2 3 4 by blast
qed

section \<open>The claims\<close>

text \<open>
  Claim C1, as the specification states it: every operation of \<^verbatim>\<open>Vector\<close> preserves the
  invariant. \<^verbatim>\<open>Insert\<close> into a vector with spare capacity first move-constructs the last
  element into slot \<open>size\<close> and then shifts by move assignment; it has no handler. When the
  move assignment of the new value throws, the call leaves the vector \<open>1, 2\<close> of capacity 4
  with size 2 and a live object in slot 2, which the invariant requires to be raw.
\<close>

theorem C1_insert_throw_leaves_live_slot:
  "Vector_inv machine_room vector_room
   \<and> fst (Insert_copy assign_T (Vector_begin vector_room) 5 vector_room machine_room) = Throw elem_exn
   \<and> fst (snd (Insert_copy assign_T (Vector_begin vector_room) 5 vector_room machine_room)) = vector_room
   \<and> slots (snd (snd (Insert_copy assign_T (Vector_begin vector_room) 5 vector_room machine_room)))
        vector_room = [Obj 0, Obj 1, Obj 2, Raw]
   \<and> \<not> Vector_inv
         (snd (snd (Insert_copy assign_T (Vector_begin vector_room) 5 vector_room machine_room)))
         (fst (snd (Insert_copy assign_T (Vector_begin vector_room) 5 vector_room machine_room)))"
  by code_simp

text \<open>
  Claim C1, amended. For vectors \<open>v\<close> and \<open>w\<close> that satisfy the invariant (size at most the
  capacity of the owned block, the first size slots live objects, the others raw) each of
  the following operations has defined behaviour and leaves the invariant in place, on
  normal return and when it throws (\<open>preserves\<close>; for a constructor, \<open>constructs\<close>):
  \<^item> default construction, copy construction, move construction, copy assignment from a
    separate vector and from itself, move assignment, \<^verbatim>\<open>Swap\<close>, \<^verbatim>\<open>PushBack\<close>, \<^verbatim>\<open>EmplaceBack\<close>,
    and \<^verbatim>\<open>PopBack\<close> of a non-empty vector;
  \<^item> construction of \<open>n\<close> elements, \<^verbatim>\<open>Reserve(n)\<close> and \<^verbatim>\<open>Resize(n)\<close> for a count \<open>n\<close> whose
    size in bytes is representable in \<^verbatim>\<open>size_t\<close>;
  \<^item> \<^verbatim>\<open>Erase\<close> at a position \<open>i\<close> below the size with \<open>i + 1\<close> below the capacity, that is, of
    every element but the last one of a full vector;
  \<^item> \<^verbatim>\<open>Emplace\<close> and \<^verbatim>\<open>Insert\<close> at a position up to the size when the vector is empty or full
    (the paths that append or allocate).

  \<^verbatim>\<open>Emplace\<close> and \<^verbatim>\<open>Insert\<close> at a position below the size of a vector with spare capacity
  have defined behaviour and leave the invariant in place on normal return
  (\<open>preserves_on_return\<close>). Of \<^verbatim>\<open>RawMemory\<close>, default construction, construction of \<open>n\<close> slots
  for a representable \<open>n\<close>, move construction and \<^verbatim>\<open>Swap\<close> leave the handle non-null
  exactly when the capacity is positive.

  Three calls are outside this statement, which says nothing of them: \<^verbatim>\<open>Emplace\<close> and
  \<^verbatim>\<open>Insert\<close> at \<^verbatim>\<open>end()\<close> of a non-empty vector with spare capacity, \<^verbatim>\<open>Erase\<close> of the last
  element of a full vector, and the move assignment of \<^verbatim>\<open>RawMemory\<close>.
\<close>

theorem C1_invariants_preserved:
  assumes "Vector_inv m v" "Vector_inv m w" "RawMemory_inv r" "RawMemory_inv s"
  shows "Vector_inv m Vector_default
   \<and> constructs (Vector_copy T v m) \<and> Vector_inv (snd (Vector_copy T v m)) v
   \<and> Vector_inv m (fst (Vector_move v)) \<and> Vector_inv m (snd (Vector_move v))
   \<and> (separate v w \<longrightarrow>
        preserves (Vector_assign T (Other w) v m) \<and>
        Vector_inv (snd (snd (Vector_assign T (Other w) v m))) w)
   \<and> preserves (Vector_assign T This v m)
   \<and> Vector_inv m (fst (Vector_move_assign v w)) \<and> Vector_inv m (snd (Vector_move_assign v w))
   \<and> Vector_inv m (fst (Vector_Swap v w)) \<and> Vector_inv m (snd (Vector_Swap v w))
   \<and> preserves (PushBack_copy T x v m) \<and> preserves (PushBack_move T x v m)
   \<and> preserves (EmplaceBack T a v m)
   \<and> (0 < Size v \<longrightarrow> preserves (PopBack v m))
   \<and> (representable T n \<longrightarrow>
        constructs (Vector_sized T n m) \<and>
        preserves (Reserve T n v m) \<and>
        preserves (Resize T n v m))
   \<and> (i < Size v \<and> Suc i < Capacity v \<longrightarrow>
        preserves (Erase T (ptr_add (Vector_begin v) i) v m))
   \<and> (i \<le> Size v \<and> (Size v = 0 \<or> Size v = Capacity v) \<longrightarrow>
        preserves (Emplace T (ptr_add (Vector_begin v) i) a v m) \<and>
        preserves (Insert_copy T (ptr_add (Vector_begin v) i) x v m) \<and>
        preserves (Insert_move T (ptr_add (Vector_begin v) i) x v m))
   \<and> (i < Size v \<and> Size v < Capacity v \<longrightarrow>
        preserves_on_return (Emplace T (ptr_add (Vector_begin v) i) a v m) \<and>
        preserves_on_return (Insert_copy T (ptr_add (Vector_begin v) i) x v m) \<and>
        preserves_on_return (Insert_move T (ptr_add (Vector_begin v) i) x v m))
   \<and> RawMemory_inv RawMemory_default
   \<and> (representable T n \<longrightarrow>
        (case RawMemory_ctor n m of
           (Ret r', m') \<Rightarrow> RawMemory_inv r' | (Throw e, m') \<Rightarrow> True | (UB, m') \<Rightarrow> False
         | (Abort, m') \<Rightarrow> False))
   \<and> RawMemory_inv (fst (RawMemory_move_ctor r)) \<and> RawMemory_inv (snd (RawMemory_move_ctor r))
   \<and> RawMemory_inv (fst (RawMemory_Swap r s)) \<and> RawMemory_inv (snd (RawMemory_Swap r s))"
proof -
  have p: "ptr_add (Vector_begin v) i = (buffer_f (data_f v), i)"
    by (simp add: ptr_add_def Vector_begin_def GetAddress_def)
  have 1: "separate v w \<longrightarrow>
        preserves (Vector_assign T (Other w) v m) \<and>
        Vector_inv (snd (snd (Vector_assign T (Other w) v m))) w"
    using Vector_assign_preserves[OF assms(1,2)] by blast
  have 2: "Vector_inv m (fst (Vector_move_assign v w)) \<and> Vector_inv m (snd (Vector_move_assign v w))"
    unfolding Vector_move_assign_def by (rule Vector_Swap_inv[OF assms(1,2)])
  have 3: "preserves (PushBack_copy T x v m) \<and> preserves (PushBack_move T x v m)"
    unfolding PushBack_copy_def PushBack_move_def using PushBack_preserves[OF assms(1)] by blast
  have 4: "0 < Size v \<longrightarrow> preserves (PopBack v m)"
    using PopBack_preserves[OF assms(1)] by blast
  have 5: "i < Size v \<and> Suc i < Capacity v \<longrightarrow>
        preserves (Erase T (ptr_add (Vector_begin v) i) v m)"
    unfolding p using Erase_preserves[OF assms(1)] by blast
  have 6: "i \<le> Size v \<and> (Size v = 0 \<or> Size v = Capacity v) \<longrightarrow>
        preserves (Emplace T (ptr_add (Vector_begin v) i) a v m) \<and>
        preserves (Insert_copy T (ptr_add (Vector_begin v) i) x v m) \<and>
        preserves (Insert_move T (ptr_add (Vector_begin v) i) x v m)"
    unfolding p Insert_copy_def Insert_move_def using Emplace_preserves[OF assms(1)] by blast
  have 7: "i < Size v \<and> Size v < Capacity v \<longrightarrow>
        preserves_on_return (Emplace T (ptr_add (Vector_begin v) i) a v m) \<and>
        preserves_on_return (Insert_copy T (ptr_add (Vector_begin v) i) x v m) \<and>
        preserves_on_return (Insert_move T (ptr_add (Vector_begin v) i) x v m)"
    unfolding p Insert_copy_def Insert_move_def using Emplace_in_place_preserves[OF assms(1)] by blast
  have 8: "representable T n \<longrightarrow>
        constructs (Vector_sized T n m) \<and>
        preserves (Reserve T n v m) \<and>
        preserves (Resize T n v m)"
    using Vector_sized_constructs[of T n m] Reserve_preserves[OF assms(1), of T n]
      Resize_preserves[OF assms(1), of T n] by blast
  have 9: "representable T n \<longrightarrow>
        (case RawMemory_ctor n m of
           (Ret r', m') \<Rightarrow> RawMemory_inv r' | (Throw e, m') \<Rightarrow> True | (UB, m') \<Rightarrow> False
         | (Abort, m') \<Rightarrow> False)"
    using RawMemory_ops_inv(2)[of n m] by blast
  show ?thesis
    using Vector_default_inv[of m] Vector_copy_constructs[OF assms(1), of T]
      Vector_move_inv[OF assms(1)] 1 Vector_assign_self_preserves[OF assms(1), of T] 2
      Vector_Swap_inv[OF assms(1,2)] 3 EmplaceBack_preserves[OF assms(1), of T a] 4 5 6 7 8 9
      RawMemory_ops_inv(1) RawMemory_ops_inv(4)[OF assms(3)]
      RawMemory_ops_inv(3)[OF assms(3,4)]
    by (intro conjI) blast+
qed

theorem C1_invariants_preserved_witness:
  "preserves (Reserve plain_T 3 vector_12 machine_pair)
   \<and> preserves (Vector_assign plain_T (Other vector_789) vector_12 machine_pair)
   \<and> preserves (PopBack vector_12 machine_pair)
   \<and> preserves (Erase plain_T (ptr_add (Vector_begin vector_789) 1) vector_789 machine_pair)
   \<and> preserves (Insert_copy plain_T (ptr_add (Vector_begin vector_12) 1) 5 vector_12 machine_pair)
   \<and> preserves_on_return
        (Insert_copy plain_T (ptr_add (Vector_begin vector_789) 1) 5 vector_789 machine_pair)
   \<and> fst (Insert_copy plain_T (ptr_add (Vector_begin vector_789) 1) 5 vector_789 machine_pair)
        = Ret (Some 1, 1)
   \<and> RawMemory_inv (snd (RawMemory_Swap (data_f vector_12) (data_f vector_789)))"
proof -
  have i: "Vector_inv machine_pair vector_12" "Vector_inv machine_pair vector_789"
    "RawMemory_inv (data_f vector_12)" "RawMemory_inv (data_f vector_789)"
    by code_simp+
  have c: "separate vector_12 vector_789" "0 < Size vector_12"
    "1 < Size vector_789 \<and> Suc 1 < Capacity vector_789"
    "1 \<le> Size vector_12 \<and> (Size vector_12 = 0 \<or> Size vector_12 = Capacity vector_12)"
    "1 < Size vector_789 \<and> Size vector_789 < Capacity vector_789"
    by code_simp+
  have n: "representable plain_T 3"
    by (simp add: representable_def SIZE_MAX_def plain_T_def)
  have r: "fst (Insert_copy plain_T (ptr_add (Vector_begin vector_789) 1) 5 vector_789 machine_pair)
        = Ret (Some 1, 1)"
    by code_simp
  note A = C1_invariants_preserved
    [OF i(1,2,3,4), where T = plain_T and x = 5 and a = "CopyOf 5" and n = 3 and i = 1]
  note B = C1_invariants_preserved
    [OF i(2,1,4,3), where T = plain_T and x = 5 and a = "CopyOf 5" and n = 3 and i = 1]
  show ?thesis using A B c n r by blast
qed

text \<open>
  Claim C2, as the specification states it: when the relocation of an element fails in
  \<^verbatim>\<open>Reserve\<close>, the original storage and elements are untouched. For an element type that
  cannot be copied and whose move constructor may throw, \<^verbatim>\<open>Reserve\<close> relocates by move: the
  vector \<open>1, 2\<close> whose second element throws on the move keeps its storage but is left
  holding \<open>0, 2\<close>, the first element being moved-from.
\<close>

theorem C2_moved_from_after_failure:
  "Vector_inv machine_12 vector_12 \<and> elems machine_12 vector_12 = [1, 2]
   \<and> fst (Reserve move_only_T 3 vector_12 machine_12) = Throw elem_exn
   \<and> fst (snd (Reserve move_only_T 3 vector_12 machine_12)) = vector_12
   \<and> elems (snd (snd (Reserve move_only_T 3 vector_12 machine_12))) vector_12 = [0, 2]"
  by code_simp

text \<open>
  Claim C2, amended. For a vector that satisfies its invariant:
  \<^item> \<^verbatim>\<open>Reserve(n)\<close> with \<open>n\<close> at most the capacity changes nothing, neither the vector nor
    the machine.

  For \<open>n\<close> above the capacity whose size in bytes is representable in \<^verbatim>\<open>size_t\<close>:
  \<^item> with no memory, \<^verbatim>\<open>std::bad_alloc\<close> leaves everything as it was;
  \<^item> with memory and no throwing relocation, it returns with a fresh block of exactly \<open>n\<close>
    slots that holds the same elements, followed by raw slots: capacity \<open>n\<close>, same size,
    same element sequence; every element was relocated once and its old object destroyed;
  \<^item> when the relocation of an element throws, the elements relocated so far are destroyed
    in the new block (each of them once, in whatever order), the new block is released,
    the exception propagates, and the vector keeps its handle, size and capacity and its
    invariant; when the relocation is by copy the original elements and every older block
    are untouched. (When it is by move, the elements relocated before the failure stay
    moved-from.)
\<close>

theorem C2_Reserve:
  assumes "Vector_inv m v"
  shows "(n \<le> Capacity v \<longrightarrow> Reserve T n v m = (Ret (), v, m))
   \<and> (Capacity v < n \<and> representable T n \<and> new_fails m (length (heap m)) n \<longrightarrow>
        Reserve T n v m = (Throw bad_alloc, v, m))
   \<and> (Capacity v < n \<and> representable T n \<and> \<not> new_fails m (length (heap m)) n \<and>
      relocatable T (elems m v) \<longrightarrow>
        (\<exists>v' m'. Reserve T n v m = (Ret (), v', m') \<and>
           buffer_f (data_f v') = Some (length (heap m)) \<and>
           block_at m' (buffer_f (data_f v')) =
             Some (map Obj (elems m v) @ replicate (n - Size v) Raw) \<and>
           Capacity v' = n \<and> Size v' = Size v \<and> elems m' v' = elems m v \<and> Vector_inv m' v' \<and>
           log m' = log m @ map (reloc_call T) (elems m v)
                      @ map Dtor (map (src_after T) (elems m v))))
   \<and> (Capacity v < n \<and> representable T n \<and> \<not> new_fails m (length (heap m)) n \<and>
      \<not> relocatable T (elems m v) \<longrightarrow>
        (\<exists>m' ds. Reserve T n v m = (Throw elem_exn, v, m') \<and>
           log m' = log m @ map (reloc_call T) (takeWhile (reloc_ok T) (elems m v))
                      @ [reloc_call T (hd (dropWhile (reloc_ok T) (elems m v)))] @ ds \<and>
           mset ds = mset (map Dtor (takeWhile (reloc_ok T) (elems m v))) \<and>
           block_at m' (Some (length (heap m))) = None \<and>
           Vector_inv m' v \<and>
           (\<not> uses_move T \<longrightarrow>
              elems m' v = elems m v \<and> take (length (heap m)) (heap m') = heap m)))"
proof -
  let ?xs = "elems m v"
  let ?k = "capacity_f (data_f v) - size_f v"
  have h: "holds m v ?xs ?k" using assms by (rule inv_holds)
  then have c: "Capacity v = length ?xs + ?k" "Size v = length ?xs"
    using holds_inv by blast+
  have 1: "n \<le> Capacity v \<longrightarrow> Reserve T n v m = (Ret (), v, m)"
    using Reserve_noop[OF h] c by simp
  have 2: "Capacity v < n \<and> new_fails m (length (heap m)) n \<longrightarrow>
        Reserve T n v m = (Throw bad_alloc, v, m)"
    using Reserve_bad_alloc[OF h] c by simp
  have 3: "Capacity v < n \<and> \<not> new_fails m (length (heap m)) n \<and> relocatable T ?xs \<longrightarrow>
        (\<exists>v' m'. Reserve T n v m = (Ret (), v', m') \<and>
           buffer_f (data_f v') = Some (length (heap m)) \<and>
           block_at m' (buffer_f (data_f v')) = Some (map Obj ?xs @ replicate (n - Size v) Raw) \<and>
           Capacity v' = n \<and> Size v' = Size v \<and> elems m' v' = ?xs \<and> Vector_inv m' v' \<and>
           log m' = log m @ map (reloc_call T) ?xs @ map Dtor (map (src_after T) ?xs))"
  proof (intro impI, elim conjE)
    assume a: "Capacity v < n" "\<not> new_fails m (length (heap m)) n" "relocatable T ?xs"
    let ?v' = "\<lparr>data_f = \<lparr>buffer_f = Some (length (heap m)), capacity_f = n\<rparr>, size_f = length ?xs\<rparr>"
    let ?m' = "m\<lparr>heap := free (buffer_f (data_f v)) (heap m) @ [Some (map Obj ?xs @ replicate (n - length ?xs) Raw)],
        log := log m @ map (reloc_call T) ?xs @ map Dtor (map (src_after T) ?xs)\<rparr>"
    have r: "Reserve T n v m = (Ret (), ?v', ?m')"
      using Reserve_ok[OF h _ a(2,3)] a(1) c by simp
    have fl: "length (free (buffer_f (data_f v)) (heap m)) = length (heap m)"
      by (simp add: free_def split: option.splits)
    have "holds ?m' ?v' ?xs (n - length ?xs)"
      using a(1) c by (simp add: holds_def fl nth_append)
    from holds_inv[OF this] show "\<exists>v' m'. Reserve T n v m = (Ret (), v', m') \<and>
           buffer_f (data_f v') = Some (length (heap m)) \<and>
           block_at m' (buffer_f (data_f v')) = Some (map Obj ?xs @ replicate (n - Size v) Raw) \<and>
           Capacity v' = n \<and> Size v' = Size v \<and> elems m' v' = ?xs \<and> Vector_inv m' v' \<and>
           log m' = log m @ map (reloc_call T) ?xs @ map Dtor (map (src_after T) ?xs)"
      using r a(1) c by (auto simp: block_at_def fl nth_append)
  qed
  have 4: "Capacity v < n \<and> \<not> new_fails m (length (heap m)) n \<and> \<not> relocatable T ?xs \<longrightarrow>
        (\<exists>m' ds. Reserve T n v m = (Throw elem_exn, v, m') \<and>
           log m' = log m @ map (reloc_call T) (takeWhile (reloc_ok T) ?xs)
                      @ [reloc_call T (hd (dropWhile (reloc_ok T) ?xs))] @ ds \<and>
           mset ds = mset (map Dtor (takeWhile (reloc_ok T) ?xs)) \<and>
           block_at m' (Some (length (heap m))) = None \<and>
           Vector_inv m' v \<and>
           (\<not> uses_move T \<longrightarrow> elems m' v = ?xs \<and> take (length (heap m)) (heap m') = heap m))"
  proof (intro impI, elim conjE)
    assume a: "Capacity v < n" "\<not> new_fails m (length (heap m)) n" "\<not> relocatable T ?xs"
    obtain m' ys where r: "Reserve T n v m = (Throw elem_exn, v, m')" "length ys = length ?xs"
           "holds m' v ys ?k" "new_fails m' = new_fails m"
           "heap m' ! length (heap m) = None" "length (heap m') = Suc (length (heap m))"
           "log m' = log m @ rollback_log (reloc_call T) (reloc_ok T) ?xs"
           "\<not> uses_move T \<longrightarrow> ys = ?xs \<and> heap m' = heap m @ [None]"
      using Reserve_throw[OF h _ a(2,3)] a(1) c by auto
    have l: "log m' = log m @ map (reloc_call T) (takeWhile (reloc_ok T) ?xs)
                      @ [reloc_call T (hd (dropWhile (reloc_ok T) ?xs))]
                      @ map Dtor (takeWhile (reloc_ok T) ?xs)"
      using r(7) by (simp add: rollback_log_def)
    have b: "block_at m' (Some (length (heap m))) = None" "Vector_inv m' v"
      "\<not> uses_move T \<longrightarrow> elems m' v = ?xs \<and> take (length (heap m)) (heap m') = heap m"
      using r holds_inv[OF r(3)] by (auto simp: block_at_def)
    show "\<exists>m' ds. Reserve T n v m = (Throw elem_exn, v, m') \<and>
           log m' = log m @ map (reloc_call T) (takeWhile (reloc_ok T) ?xs)
                      @ [reloc_call T (hd (dropWhile (reloc_ok T) ?xs))] @ ds \<and>
           mset ds = mset (map Dtor (takeWhile (reloc_ok T) ?xs)) \<and>
           block_at m' (Some (length (heap m))) = None \<and>
           Vector_inv m' v \<and>
           (\<not> uses_move T \<longrightarrow> elems m' v = ?xs \<and> take (length (heap m)) (heap m') = heap m)"
      using r(1) l b by blast
  qed
  show ?thesis using 1 2 3 4 by blast
qed

theorem C2_Reserve_witness:
  "Reserve plain_T 2 vector_12 machine_12 = (Ret (), vector_12, machine_12)
   \<and> fst (Reserve plain_T 3 vector_12 machine_12) = Ret ()
   \<and> Capacity (fst (snd (Reserve plain_T 3 vector_12 machine_12))) = 3
   \<and> elems (snd (snd (Reserve plain_T 3 vector_12 machine_12)))
        (fst (snd (Reserve plain_T 3 vector_12 machine_12))) = [1, 2]
   \<and> fst (Reserve copy_T 3 vector_12 machine_12) = Throw elem_exn
   \<and> elems (snd (snd (Reserve copy_T 3 vector_12 machine_12))) vector_12 = [1, 2]"
proof -
  have inv: "Vector_inv machine_12 vector_12" by code_simp
  have e: "elems machine_12 vector_12 = [1, 2]" "Capacity vector_12 = 2"
    "\<not> new_fails machine_12 (length (heap machine_12)) 3"
    "relocatable plain_T [1, 2]" "\<not> relocatable copy_T [1, 2]" "\<not> uses_move copy_T"
    by code_simp+
  have n: "representable plain_T 3" "representable copy_T 3"
    by (simp_all add: representable_def SIZE_MAX_def plain_T_def copy_T_def)
  show ?thesis
    using C2_Reserve [OF inv, of 2 plain_T] C2_Reserve [OF inv, of 3 plain_T]
      C2_Reserve [OF inv, of 3 copy_T] e n
    by auto
qed




text \<open>
  Claim C4 fails on the code at every call. The move assignment of \<^verbatim>\<open>RawMemory\<close> is declared
  to return \<^verbatim>\<open>RawMemory&\<close> and its body is \<^verbatim>\<open>Swap(rhs);\<close> alone: it exchanges handle and
  capacity with the source and then flows off the end of a function that must return a
  value, which is undefined behaviour. For a destination that owns a block of 2 slots and
  a source that owns a block of 3 slots, the exchange has taken place when the undefined
  behaviour is reached, so that the source holds the block of the destination and is not
  empty. The move constructor of \<^verbatim>\<open>RawMemory\<close>, which calls \<^verbatim>\<open>Swap\<close> in the same way, has
  defined behaviour and leaves its source empty.
\<close>

theorem C4_move_assign_undefined:
  "RawMemory_move_assign \<lparr>buffer_f = Some 0, capacity_f = 2\<rparr> \<lparr>buffer_f = Some 1, capacity_f = 3\<rparr>
     = (UB, \<lparr>buffer_f = Some 1, capacity_f = 3\<rparr>, \<lparr>buffer_f = Some 0, capacity_f = 2\<rparr>)
   \<and> RawMemory_move_ctor \<lparr>buffer_f = Some 1, capacity_f = 3\<rparr>
     = (\<lparr>buffer_f = Some 1, capacity_f = 3\<rparr>, \<lparr>buffer_f = None, capacity_f = 0\<rparr>)"
  by (simp add: RawMemory_move_assign_def RawMemory_move_ctor_def RawMemory_Swap_def
      RawMemory_default_def)

text \<open>
  Claim C5: move construction hands the storage and the size of the source to the new
  object, which then holds the former elements, size and capacity of the source, and
  leaves the source with size 0, capacity 0 and a null handle. Neither the free store nor
  the log changes: the constructor has no access to the machine.
\<close>

theorem C5_move_construction:
  "fst (Vector_move v) = v
   \<and> elems m (fst (Vector_move v)) = elems m v
   \<and> Size (fst (Vector_move v)) = Size v
   \<and> Capacity (fst (Vector_move v)) = Capacity v
   \<and> Size (snd (Vector_move v)) = 0
   \<and> Capacity (snd (Vector_move v)) = 0
   \<and> buffer_f (data_f (snd (Vector_move v))) = None"
  by (simp add: Vector_move_def RawMemory_move_ctor_def RawMemory_Swap_def RawMemory_default_def
      Size_def Capacity_def RawMemory_Capacity_def RawMemory_eta Vector_eta)

theorem C5_move_construction_witness:
  "Vector_move \<lparr>data_f = \<lparr>buffer_f = Some 0, capacity_f = 4\<rparr>, size_f = 3\<rparr>
     = (\<lparr>data_f = \<lparr>buffer_f = Some 0, capacity_f = 4\<rparr>, size_f = 3\<rparr>,
        \<lparr>data_f = \<lparr>buffer_f = None, capacity_f = 0\<rparr>, size_f = 0\<rparr>)"
  using C5_move_construction [of "\<lparr>data_f = \<lparr>buffer_f = Some 0, capacity_f = 4\<rparr>, size_f = 3\<rparr>"]
  by (simp add: Vector_move_def RawMemory_move_ctor_def RawMemory_Swap_def RawMemory_default_def)



text \<open>
  Claim C7: copy assignment \<^verbatim>\<open>dst = src\<close> between two vectors that satisfy their invariants
  and do not share a block. The call never has undefined behaviour and leaves the source
  with its elements. On normal return the destination satisfies its invariant, holds
  exactly the elements of the source and has the size of the source, and the element
  operations performed are those of the branch taken (\<open>assign_log\<close>):
  \<^item> source larger than the capacity of the destination: every element of the source is
    copy-constructed into a temporary, which is exchanged with the destination; the old
    elements are destroyed;
  \<^item> source at least as long as the destination, within capacity: the common prefix is
    copy-assigned and the tail copy-constructed;
  \<^item> source shorter: the prefix is copy-assigned and the excess destroyed.
  When a step throws, the vector object is left as it was, size included, and still
  satisfies its invariant: the size is written after the last step that may fail. When no
  allocation and no copy fails (\<open>assign_succeeds\<close>) the call returns normally.
\<close>

theorem C7_copy_assignment:
  assumes "Vector_inv m dst" "Vector_inv m src" "separate dst src"
  shows "\<exists>r dst' m'. Vector_assign T (Other src) dst m = (r, dst', m') \<and> r \<noteq> UB \<and>
           Vector_inv m' src \<and> elems m' src = elems m src \<and>
           (r = Ret () \<longrightarrow>
              Vector_inv m' dst' \<and> elems m' dst' = elems m src \<and> Size dst' = Size src \<and>
              log m' = log m @ assign_log (elems m dst) (Capacity dst - Size dst) (elems m src)) \<and>
           (r \<noteq> Ret () \<longrightarrow> dst' = dst \<and> Vector_inv m' dst) \<and>
           (assign_succeeds T m (elems m dst) (Capacity dst - Size dst) (elems m src) \<longrightarrow> r = Ret ())"
  using assms by (rule Vector_assign_summary)

theorem C7_copy_assignment_witness:
  "fst (Vector_assign plain_T (Other vector_789) vector_12 machine_pair) = Ret ()
   \<and> elems (snd (snd (Vector_assign plain_T (Other vector_789) vector_12 machine_pair)))
        (fst (snd (Vector_assign plain_T (Other vector_789) vector_12 machine_pair))) = [7, 8, 9]
   \<and> fst (Vector_assign plain_T (Other vector_12) vector_789 machine_pair) = Ret ()
   \<and> elems (snd (snd (Vector_assign plain_T (Other vector_12) vector_789 machine_pair)))
        (fst (snd (Vector_assign plain_T (Other vector_12) vector_789 machine_pair))) = [1, 2]"
proof -
  have i: "Vector_inv machine_pair vector_12" "Vector_inv machine_pair vector_789"
    "separate vector_12 vector_789" "separate vector_789 vector_12"
    by code_simp+
  have e: "elems machine_pair vector_12 = [1, 2]" "elems machine_pair vector_789 = [7, 8, 9]"
    "assign_succeeds plain_T machine_pair (elems machine_pair vector_12)
       (Capacity vector_12 - Size vector_12) (elems machine_pair vector_789)"
    "assign_succeeds plain_T machine_pair (elems machine_pair vector_789)
       (Capacity vector_789 - Size vector_789) (elems machine_pair vector_12)"
    by code_simp+
  show ?thesis
    using C7_copy_assignment [OF i(1,2,3), of plain_T] C7_copy_assignment [OF i(2,1,4), of plain_T] e
    by auto
qed

text \<open>
  Claim C8 fails on the code for the position \<^verbatim>\<open>end()\<close> of a non-empty vector with spare
  capacity. The vector \<open>7, 8, 9\<close> has size 3 and capacity 4. \<^verbatim>\<open>Insert(end(), 5)\<close> takes the
  path without allocation, move-constructs the last element into slot 3 and calls
  \<^verbatim>\<open>std::move_backward(&data_[3], end() - 1, end())\<close>, whose first iterator lies behind its
  last one: undefined behaviour, reached with the block holding \<open>7, 8\<close>, a moved-from
  object and \<open>9\<close>. At a position below \<^verbatim>\<open>end()\<close> the same vector takes the new element, and
  at \<^verbatim>\<open>end()\<close> a full vector does (the path that allocates).
\<close>

theorem C8_insert_at_end_undefined:
  "Vector_inv machine_pushed vector_pushed
   \<and> Size vector_pushed = 3 \<and> Capacity vector_pushed = 4
   \<and> elems machine_pushed vector_pushed = [7, 8, 9]
   \<and> Vector_end vector_pushed = ptr_add (Vector_begin vector_pushed) 3
   \<and> fst (Insert_copy plain_T (Vector_end vector_pushed) 5 vector_pushed machine_pushed) = UB
   \<and> slots (snd (snd (Insert_copy plain_T (Vector_end vector_pushed) 5 vector_pushed machine_pushed)))
        vector_pushed = [Obj 7, Obj 8, Obj 0, Obj 9]
   \<and> fst (Insert_copy plain_T (ptr_add (Vector_begin vector_pushed) 2) 5 vector_pushed machine_pushed)
        = Ret (ptr_add (Vector_begin vector_pushed) 2)
   \<and> elems (snd (snd (Insert_copy plain_T (ptr_add (Vector_begin vector_pushed) 2) 5
                          vector_pushed machine_pushed)))
        (fst (snd (Insert_copy plain_T (ptr_add (Vector_begin vector_pushed) 2) 5
                          vector_pushed machine_pushed))) = [7, 8, 5, 9]
   \<and> elems (snd (snd (Insert_copy plain_T (Vector_end vector_12) 5 vector_12 machine_12)))
        (fst (snd (Insert_copy plain_T (Vector_end vector_12) 5 vector_12 machine_12))) = [1, 2, 5]"
  by code_simp

text \<open>
  Claim C9 fails on the code for \<^verbatim>\<open>Erase\<close> of the last element of a full vector. The vector
  \<open>1, 2\<close> has size 2 and capacity 2, and \<^verbatim>\<open>begin() + 1\<close> is a valid dereferenceable position.
  \<^verbatim>\<open>Erase(begin() + 1)\<close> forms the start of the range to shift as \<^verbatim>\<open>&data_[2]\<close>, through
  \<^verbatim>\<open>RawMemory::operator[]\<close>, which asserts \<^verbatim>\<open>index < capacity_\<close>: the assertion fails and the
  call does not return; nothing is destroyed. \<^verbatim>\<open>RawMemory::operator+\<close> permits the address
  one past the last slot, and \<^verbatim>\<open>PopBack\<close> removes the same element in place; so does \<^verbatim>\<open>Erase\<close>
  of the first element of the same vector, and of the last element of the vector
  \<open>7, 8, 9\<close> with capacity 4.
\<close>

theorem C9_erase_last_of_full_aborts:
  "Vector_inv machine_12 vector_12
   \<and> Size vector_12 = 2 \<and> Capacity vector_12 = 2
   \<and> elems machine_12 vector_12 = [1, 2]
   \<and> fst (Erase plain_T (ptr_add (Vector_begin vector_12) 1) vector_12 machine_12) = Abort
   \<and> log (snd (snd (Erase plain_T (ptr_add (Vector_begin vector_12) 1) vector_12 machine_12))) = []
   \<and> fst (PopBack vector_12 machine_12) = Ret ()
   \<and> elems (snd (snd (PopBack vector_12 machine_12))) (fst (snd (PopBack vector_12 machine_12))) = [1]
   \<and> Capacity (fst (snd (PopBack vector_12 machine_12))) = 2
   \<and> fst (Erase plain_T (Vector_begin vector_12) vector_12 machine_12) = Ret (Vector_begin vector_12)
   \<and> elems (snd (snd (Erase plain_T (Vector_begin vector_12) vector_12 machine_12)))
        (fst (snd (Erase plain_T (Vector_begin vector_12) vector_12 machine_12))) = [2]
   \<and> fst (Erase plain_T (ptr_add (Vector_begin vector_789) 2) vector_789 machine_pair)
        = Ret (ptr_add (Vector_begin vector_789) 2)
   \<and> elems (snd (snd (Erase plain_T (ptr_add (Vector_begin vector_789) 2) vector_789 machine_pair)))
        (fst (snd (Erase plain_T (ptr_add (Vector_begin vector_789) 2) vector_789 machine_pair)))
        = [7, 8]"
  by code_simp

text \<open>
  Claim C10: copy assignment of a vector to itself (\<^verbatim>\<open>this == &rhs\<close>) returns with the
  vector and the whole machine unchanged: same handle, size and capacity, same contents of
  every block, and nothing added to the log of element operations, so no constructor,
  destructor or assignment of an element is called and nothing is allocated or released.
\<close>

theorem C10_self_assignment:
  "Vector_assign T This v m = (Ret (), v, m)"
  by (simp add: Vector_assign_def)

theorem C10_self_assignment_witness:
  "Vector_assign copy_T This vector_12 machine_12 = (Ret (), vector_12, machine_12)
   \<and> log (snd (snd (Vector_assign copy_T This vector_12 machine_12))) = []"
  using C10_self_assignment [of copy_T vector_12 machine_12]
  by (simp add: machine_12_def)

end
